theory Spec2Isabelle
  imports Main "HOL-Library.Sublist" "HOL-Library.Char_ord" "HOL-Library.List_Lexorder"
begin

section \<open>exportenv: the two programs of the repository\<close>

text \<open>
  The repository holds two Go programs. The multi-file program is
  \<^verbatim>\<open>cmd/exportenv/main.go\<close> (several env files, override flag, command-line
  variables, expansion, sorted export output, command execution). The simple
  program is the single-file one with its test file (one env file, eval, unset and
  export modes). Both declare \<^verbatim>\<open>Args\<close>, \<^verbatim>\<open>main\<close> and
  \<^verbatim>\<open>parseEnvFile\<close>; the definitions of the simple program carry the prefix
  \<open>simple_\<close> where the names clash.

  A Go \<^verbatim>\<open>string\<close> is a byte sequence and is modelled as a \<^typ>\<open>string\<close> (a list of
  8-bit characters). A Go \<^verbatim>\<open>map[string]string\<close> is a partial function. Bytes that
  cannot be written inside a literal are given by their code.

  The functions of the Go library the programs call (\<^verbatim>\<open>strings\<close>, \<^verbatim>\<open>regexp\<close>,
  \<^verbatim>\<open>os.Expand\<close>) are modelled by what they compute on the bytes. The command line is
  taken as parsed: \<^verbatim>\<open>main\<close> starts from the \<^verbatim>\<open>Args\<close> that \<^verbatim>\<open>arg.MustParse\<close>
  filled in. Files, the environment and the child process are parameters.
\<close>

abbreviation dquote :: char where "dquote \<equiv> CHR 0x22"
abbreviation squote :: char where "squote \<equiv> CHR 0x27"
abbreviation backtick :: char where "backtick \<equiv> CHR 0x60"
abbreviation backslash :: char where "backslash \<equiv> CHR 0x5C"
abbreviation newline :: char where "newline \<equiv> CHR 0x0A"

type_synonym EnvMap = "string \<rightharpoonup> string"

subsection \<open>Failures and effects\<close>

text \<open>
  A Go \<^verbatim>\<open>error\<close> value returned by the operating system or the scanner is
  \<open>Error\<close>; a run-time panic is \<open>Panic\<close>. A function that can fail returns
  \<open>failure + 'a\<close>, with \<open>Inl\<close> for the failure.
\<close>

datatype failure = Error string | Panic string

text \<open>
  What a run of \<^verbatim>\<open>main\<close> does to the outside: a record written by
  \<^verbatim>\<open>slog.Error\<close> (message and failure), bytes written by \<^verbatim>\<open>fmt.Printf\<close> or
  \<^verbatim>\<open>fmt.Println\<close>, a child process run with arguments and environment, and a
  crash of the process by a panic.
\<close>

datatype effect =
    Logged string failure
  | Stdout string
  | Ran "string list" "string list"
  | Crashed string

text \<open>
  The file system as the programs see it. \<^verbatim>\<open>os.Open\<close> either fails, or the
  \<^verbatim>\<open>bufio.Scanner\<close> hands over a sequence of lines (without their line ends) and
  then stops; \<^verbatim>\<open>scanner.Err()\<close> is the optional error it stopped with.
\<close>

datatype file_result = OpenFails string | Scanned "string list" "string option"

type_synonym filesystem = "string \<Rightarrow> file_result"

subsection \<open>Iterating over a Go map\<close>

text \<open>
  \<^verbatim>\<open>for k, v := range m\<close> visits every key of \<open>m\<close> exactly once, in an order the
  language leaves unspecified (and the runtime randomises). The order is a parameter
  of the model: \<open>ord m\<close> is the list of keys in the order the loop over \<open>m\<close> visits them,
  and \<open>range_order m ks\<close> says that \<open>ks\<close> is such an order.
\<close>

type_synonym range_oracle = "EnvMap \<Rightarrow> string list"

definition range_order :: "EnvMap \<Rightarrow> string list \<Rightarrow> bool" where
  "range_order m ks \<longleftrightarrow> distinct ks \<and> set ks = dom m"

subsection \<open>Package strings\<close>

text \<open>
  \<^verbatim>\<open>strings.TrimSpace\<close> removes leading and trailing white space as Unicode defines
  it (\<^verbatim>\<open>unicode.IsSpace\<close>). On the bytes of a string these are the six ASCII
  characters tab, line feed, vertical tab, form feed, carriage return and space, and the
  UTF-8 encodings of U+0085, U+00A0, U+1680, U+2000 to U+200A, U+2028, U+2029, U+202F,
  U+205F and U+3000.
\<close>

definition spaces :: "string list" where
  "spaces =
    [[CHR 0x09], [CHR 0x0A], [CHR 0x0B], [CHR 0x0C], [CHR 0x0D], [CHR 0x20],
     [CHR 0xC2, CHR 0x85], [CHR 0xC2, CHR 0xA0],
     [CHR 0xE1, CHR 0x9A, CHR 0x80],
     [CHR 0xE2, CHR 0x80, CHR 0x80], [CHR 0xE2, CHR 0x80, CHR 0x81],
     [CHR 0xE2, CHR 0x80, CHR 0x82], [CHR 0xE2, CHR 0x80, CHR 0x83],
     [CHR 0xE2, CHR 0x80, CHR 0x84], [CHR 0xE2, CHR 0x80, CHR 0x85],
     [CHR 0xE2, CHR 0x80, CHR 0x86], [CHR 0xE2, CHR 0x80, CHR 0x87],
     [CHR 0xE2, CHR 0x80, CHR 0x88], [CHR 0xE2, CHR 0x80, CHR 0x89],
     [CHR 0xE2, CHR 0x80, CHR 0x8A],
     [CHR 0xE2, CHR 0x80, CHR 0xA8], [CHR 0xE2, CHR 0x80, CHR 0xA9],
     [CHR 0xE2, CHR 0x80, CHR 0xAF],
     [CHR 0xE2, CHR 0x81, CHR 0x9F],
     [CHR 0xE3, CHR 0x80, CHR 0x80]]"

definition HasPrefix :: "string \<Rightarrow> string \<Rightarrow> bool" where
  "HasPrefix s p \<longleftrightarrow> take (length p) s = p"

definition HasSuffix :: "string \<Rightarrow> string \<Rightarrow> bool" where
  "HasSuffix s p \<longleftrightarrow> length p \<le> length s \<and> drop (length s - length p) s = p"

definition TrimPrefix :: "string \<Rightarrow> string \<Rightarrow> string" where
  "TrimPrefix s p = (if HasPrefix s p then drop (length p) s else s)"

definition TrimSuffix :: "string \<Rightarrow> string \<Rightarrow> string" where
  "TrimSuffix s p = (if HasSuffix s p then take (length s - length p) s else s)"

text \<open>The width in bytes of a white-space character at the front (at the end) of \<open>s\<close>,
  \<open>0\<close> when there is none.\<close>

definition leadingSpace :: "string \<Rightarrow> nat" where
  "leadingSpace s = (case find (HasPrefix s) spaces of None \<Rightarrow> 0 | Some e \<Rightarrow> length e)"

definition trailingSpace :: "string \<Rightarrow> nat" where
  "trailingSpace s = (case find (HasSuffix s) spaces of None \<Rightarrow> 0 | Some e \<Rightarrow> length e)"

function TrimLeft :: "string \<Rightarrow> string" where
  "TrimLeft s = (if s = [] \<or> leadingSpace s = 0 then s else TrimLeft (drop (leadingSpace s) s))"
  by pat_completeness auto
termination
  by (relation "measure length") auto

function TrimRight :: "string \<Rightarrow> string" where
  "TrimRight s =
     (if s = [] \<or> trailingSpace s = 0 then s else TrimRight (take (length s - trailingSpace s) s))"
  by pat_completeness auto
termination
  by (relation "measure length") auto

declare TrimLeft.simps [simp del] TrimRight.simps [simp del]

definition TrimSpace :: "string \<Rightarrow> string" where
  "TrimSpace s = TrimRight (TrimLeft s)"

text \<open>
  \<^verbatim>\<open>strings.ReplaceAll(s, old, new)\<close> replaces the non-overlapping occurrences of
  \<open>old\<close> from left to right. Every call in the programs passes a non-empty \<open>old\<close>;
  for an empty \<open>old\<close> (where Go inserts \<open>new\<close> around every character) the model
  is not used and returns \<open>s\<close>.
\<close>

function ReplaceAll :: "string \<Rightarrow> string \<Rightarrow> string \<Rightarrow> string" where
  "ReplaceAll s old new =
     (if s = [] then []
      else if old \<noteq> [] \<and> HasPrefix s old then new @ ReplaceAll (drop (length old) s) old new
      else hd s # ReplaceAll (tl s) old new)"
  by pat_completeness auto
termination
  by (relation "measure (\<lambda>(s, old, new). length s)") auto

declare ReplaceAll.simps [simp del]

text \<open>\<^verbatim>\<open>strings.SplitN(s, "=", 2)\<close>: at most two parts, split at the first \<open>=\<close>.\<close>

definition SplitN2 :: "string \<Rightarrow> string list" where
  "SplitN2 s =
     (if CHR ''='' \<in> set s
      then [takeWhile (\<lambda>c. c \<noteq> CHR ''='') s, tl (dropWhile (\<lambda>c. c \<noteq> CHR ''='') s)]
      else [s])"

subsection \<open>Package os: \<^verbatim>\<open>os.Expand\<close>\<close>

text \<open>
  \<^verbatim>\<open>os.Expand(s, mapping)\<close> of the Go standard library replaces \<^verbatim>\<open>${var}\<close> and
  \<^verbatim>\<open>$var\<close> in \<open>s\<close> by \<open>mapping var\<close>. \<^verbatim>\<open>getShellName\<close> is given the text after
  a \<^verbatim>\<open>$\<close> and returns the name and the number of bytes it used.
\<close>

definition isShellSpecialVar :: "char \<Rightarrow> bool" where
  "isShellSpecialVar c \<longleftrightarrow> c \<in> set ''*#$@!?-0123456789''"

definition isAlphaNum :: "char \<Rightarrow> bool" where
  "isAlphaNum c \<longleftrightarrow>
     c = CHR ''_'' \<or> (CHR ''0'' \<le> c \<and> c \<le> CHR ''9'') \<or> (CHR ''a'' \<le> c \<and> c \<le> CHR ''z'')
       \<or> (CHR ''A'' \<le> c \<and> c \<le> CHR ''Z'')"

definition getShellName :: "string \<Rightarrow> string \<times> nat" where
  "getShellName s =
     (if hd s = CHR ''{'' then
        (if length s > 2 \<and> isShellSpecialVar (s ! 1) \<and> s ! 2 = CHR ''}'' then ([s ! 1], 3)
         else if CHR ''}'' \<in> set (tl s) then
           (let name = takeWhile (\<lambda>c. c \<noteq> CHR ''}'') (tl s)
            in if name = [] then ([], 2) else (name, length name + 2))
         else ([], 1))
      else if isShellSpecialVar (hd s) then ([hd s], 1)
      else (takeWhile isAlphaNum s, length (takeWhile isAlphaNum s)))"

fun Expand :: "string \<Rightarrow> (string \<Rightarrow> string) \<Rightarrow> string" where
  "Expand [] mapping = []"
| "Expand (c # cs) mapping =
     (if c = CHR ''$'' \<and> cs \<noteq> [] then
        (let name = fst (getShellName cs); w = snd (getShellName cs)
         in (if name = [] \<and> w > 0 then []
             else if name = [] then [c]
             else mapping name) @ Expand (drop w cs) mapping)
      else c # Expand cs mapping)"

subsection \<open>Package regexp: the two patterns\<close>

text \<open>
  The class \<^verbatim>\<open>\s\<close> of Go's regular expressions is tab, line feed, form feed,
  carriage return and space; \<^verbatim>\<open>.\<close> is every character but the line feed; \<^verbatim>\<open>^\<close>
  and \<^verbatim>\<open>$\<close> are the ends of the text. A match is the one the leftmost-first
  (backtracking) search finds; the functions return the submatches \<open>(matches[1],
  matches[2])\<close>, or \<open>None\<close> where \<^verbatim>\<open>FindStringSubmatch\<close> returns \<^verbatim>\<open>nil\<close>.
\<close>

definition reSpace :: "char \<Rightarrow> bool" where
  "reSpace c \<longleftrightarrow> c \<in> {CHR 0x09, CHR 0x0A, CHR 0x0C, CHR 0x0D, CHR 0x20}"

definition identStart :: "char \<Rightarrow> bool" where
  "identStart c \<longleftrightarrow>
     (CHR ''A'' \<le> c \<and> c \<le> CHR ''Z'') \<or> (CHR ''a'' \<le> c \<and> c \<le> CHR ''z'') \<or> c = CHR ''_''"

definition identChar :: "char \<Rightarrow> bool" where
  "identChar c \<longleftrightarrow> identStart c \<or> (CHR ''0'' \<le> c \<and> c \<le> CHR ''9'')"

text \<open>
  \<^verbatim>\<open>^\s*([A-Za-z_][A-Za-z0-9_]*)\s*=\s*(.*)$\<close> of the multi-file program. Every
  repetition is greedy and the character after it is outside its class, so each takes
  the longest run; \<^verbatim>\<open>(.*)$\<close> needs the rest to be free of line feeds.
\<close>

definition keyValueLine :: "string \<Rightarrow> (string \<times> string) option" where
  "keyValueLine line =
     (let s1 = dropWhile reSpace line in
      if s1 \<noteq> [] \<and> identStart (hd s1) then
        (let key = takeWhile identChar s1;
             s2 = dropWhile reSpace (dropWhile identChar s1)
         in if s2 \<noteq> [] \<and> hd s2 = CHR ''='' then
              (let val = dropWhile reSpace (tl s2)
               in if newline \<in> set val then None else Some (key, val))
            else None)
      else None)"

text \<open>
  \<^verbatim>\<open>^\s*([^#=]+)\s*=\s*(.*?)(\s*#.*)?$\<close> of the simple program. The \<^verbatim>\<open>=\<close> it
  matches is the first one of the line; the text before it must be non-empty and free
  of \<^verbatim>\<open>#\<close>. The key group is greedy and takes that text without its leading
  \<^verbatim>\<open>\s\<close> run (when the text is white space only, the run gives back its last
  character). The value group is lazy: it is the shortest line-feed-free text after
  which the rest is empty or is \<^verbatim>\<open>\s*#.*\<close>.
\<close>

definition commentTail :: "string \<Rightarrow> bool" where
  "commentTail t \<longleftrightarrow>
     t = [] \<or> (let u = dropWhile reSpace t in u \<noteq> [] \<and> hd u = CHR ''#'' \<and> newline \<notin> set (tl u))"

fun lazyValue :: "string \<Rightarrow> string option" where
  "lazyValue [] = Some []"
| "lazyValue (c # cs) =
     (if commentTail (c # cs) then Some []
      else if c = newline then None
      else map_option ((#) c) (lazyValue cs))"

definition envLinePattern :: "string \<Rightarrow> (string \<times> string) option" where
  "envLinePattern line =
     (if CHR ''='' \<notin> set line then None
      else
        (let pre = takeWhile (\<lambda>c. c \<noteq> CHR ''='') line;
             rest = tl (dropWhile (\<lambda>c. c \<noteq> CHR ''='') line)
         in if pre = [] \<or> CHR ''#'' \<in> set pre then None
            else
              (let key = (if dropWhile reSpace pre = [] then [last pre] else dropWhile reSpace pre)
               in map_option (Pair key) (lazyValue (dropWhile reSpace rest)))))"

section \<open>The multi-file program\<close>

record Args =
  EnvFiles :: "string list"
  NoExpand :: bool
  Override :: bool
  Vars :: "string list"
  Cmd :: "string list"

subsection \<open>Parsing one file\<close>

definition isCommentOrEmpty :: "string \<Rightarrow> bool" where
  "isCommentOrEmpty line \<longleftrightarrow> line = [] \<or> HasPrefix line ''#''"

text \<open>
  The loop of \<^verbatim>\<open>removeInlineComment\<close> copies characters until a \<^verbatim>\<open>#\<close> outside
  quotes. The Go loop runs over the characters (runes) of the text and writes each one
  back; the three characters it compares with are single bytes, so on valid UTF-8 text,
  which is what the specification assumes, it is this loop over the bytes. (On a byte
  that is not part of a valid UTF-8 encoding the Go loop writes the replacement character
  U+FFFD in its place; the model is not meant for such text.)
\<close>

fun removeInlineComment_loop :: "bool \<Rightarrow> char \<Rightarrow> string \<Rightarrow> string" where
  "removeInlineComment_loop inQuote quoteChar [] = []"
| "removeInlineComment_loop inQuote quoteChar (c # cs) =
     (if (c = dquote \<or> c = squote) \<and> \<not> inQuote then c # removeInlineComment_loop True c cs
      else if c = quoteChar \<and> inQuote then c # removeInlineComment_loop False quoteChar cs
      else if c = CHR ''#'' \<and> \<not> inQuote then []
      else c # removeInlineComment_loop inQuote quoteChar cs)"

definition removeInlineComment :: "string \<Rightarrow> string" where
  "removeInlineComment val = TrimSpace (removeInlineComment_loop False (CHR 0x00) val)"

text \<open>\<^verbatim>\<open>parseLine\<close> returns key, value, whether a multiline value starts, and the
  quote character (\<open>0\<close> for none).\<close>

definition parseLine :: "string \<Rightarrow> string \<times> string \<times> bool \<times> char" where
  "parseLine line =
     (case keyValueLine line of
        None \<Rightarrow> ([], [], False, CHR 0x00)
      | Some (key, val0) \<Rightarrow>
          (let val = removeInlineComment val0 in
           if HasPrefix val [dquote] \<or> HasPrefix val [squote] then
             (let quoteType = hd val;
                  val = TrimPrefix val [quoteType]
              in if HasSuffix val [quoteType]
                 then (key, TrimSuffix val [quoteType], False, CHR 0x00)
                 else (key, val, True, quoteType))
           else (key, val, False, CHR 0x00)))"

text \<open>The map lookup of Go, \<^verbatim>\<open>m[k]\<close>, and the test \<^verbatim>\<open>_, ok := m[k]\<close>.\<close>

definition lookup :: "EnvMap \<Rightarrow> string \<Rightarrow> string" where
  "lookup m k = (case m k of Some v \<Rightarrow> v | None \<Rightarrow> [])"

definition existsInMap :: "EnvMap \<Rightarrow> string \<Rightarrow> bool" where
  "existsInMap m k \<longleftrightarrow> m k \<noteq> None"

definition expandVariables :: "string \<Rightarrow> EnvMap \<Rightarrow> string" where
  "expandVariables val envVars = Expand val (lookup envVars)"

text \<open>The variables of the scanning loop of \<^verbatim>\<open>parseEnvFile\<close>, and one turn of it.\<close>

record ParseState =
  st_envVars :: EnvMap
  st_key :: string
  st_value :: string
  st_multiline :: bool
  st_quoteType :: char

definition parseEnvFile_init :: ParseState where
  "parseEnvFile_init =
     \<lparr>st_envVars = Map.empty, st_key = [], st_value = [], st_multiline = False,
      st_quoteType = CHR 0x00\<rparr>"

definition parseEnvFile_step :: "ParseState \<Rightarrow> string \<Rightarrow> ParseState" where
  "parseEnvFile_step st text =
     (let line = TrimSpace text in
      if isCommentOrEmpty line then st
      else if st_multiline st then
        (if HasSuffix line [st_quoteType st] then
           (let value = removeInlineComment
                          (st_value st @ [newline] @ TrimSuffix line [st_quoteType st])
            in st\<lparr>st_value := value,
                  st_envVars := (st_envVars st)(st_key st \<mapsto> value),
                  st_multiline := False\<rparr>)
         else st\<lparr>st_value := st_value st @ [newline] @ line\<rparr>)
      else
        (case parseLine line of (key, val, multiline, quoteType) \<Rightarrow>
           if multiline then
             st\<lparr>st_key := key, st_value := val, st_multiline := True, st_quoteType := quoteType\<rparr>
           else
             (let val = (if quoteType = dquote
                         then ReplaceAll (expandVariables val (st_envVars st))
                                [backslash, CHR ''n''] [newline]
                         else val)
              in st\<lparr>st_key := key, st_multiline := False, st_quoteType := quoteType,
                    st_envVars := (st_envVars st)(key \<mapsto> val)\<rparr>)))"

definition parseEnvFile :: "filesystem \<Rightarrow> string \<Rightarrow> failure + EnvMap" where
  "parseEnvFile fs filePath =
     (case fs filePath of
        OpenFails err \<Rightarrow> Inl (Error err)
      | Scanned lines scanErr \<Rightarrow>
          (let st = foldl parseEnvFile_step parseEnvFile_init lines in
           case scanErr of
             Some err \<Rightarrow> Inl (Error err)
           | None \<Rightarrow> Inr (st_envVars st)))"

subsection \<open>Loading, merging, expanding\<close>

fun loadEnvFiles_loop ::
  "range_oracle \<Rightarrow> filesystem \<Rightarrow> bool \<Rightarrow> string list \<Rightarrow> EnvMap \<Rightarrow> failure + EnvMap" where
  "loadEnvFiles_loop ord fs override [] envVars = Inr envVars"
| "loadEnvFiles_loop ord fs override (file # files) envVars =
     (case parseEnvFile fs file of
        Inl err \<Rightarrow> Inl err
      | Inr fileVars \<Rightarrow>
          loadEnvFiles_loop ord fs override files
            (fold (\<lambda>k env. case fileVars k of
                              None \<Rightarrow> env
                            | Some v \<Rightarrow> if override \<or> \<not> existsInMap env k then env(k \<mapsto> v) else env)
               (ord fileVars) envVars))"

definition loadEnvFiles ::
  "range_oracle \<Rightarrow> filesystem \<Rightarrow> string list \<Rightarrow> bool \<Rightarrow> failure + EnvMap" where
  "loadEnvFiles ord fs files override =
     loadEnvFiles_loop ord fs override (if length files = 0 then [''.env''] else files) Map.empty"

definition parseCommandLineVars :: "string list \<Rightarrow> EnvMap" where
  "parseCommandLineVars vars =
     fold (\<lambda>v cmdVars.
             let parts = SplitN2 v in
             if length parts = 2 then cmdVars(parts ! 0 \<mapsto> parts ! 1)
             else if length parts = 1 then cmdVars(parts ! 0 \<mapsto> [])
             else cmdVars)
       vars Map.empty"

definition mergeEnvVars :: "range_oracle \<Rightarrow> EnvMap \<Rightarrow> EnvMap \<Rightarrow> EnvMap" where
  "mergeEnvVars ord envVars cmdVars =
     fold (\<lambda>k env. case cmdVars k of None \<Rightarrow> env | Some v \<Rightarrow> env(k \<mapsto> v)) (ord cmdVars) envVars"

text \<open>
  \<^verbatim>\<open>expandEnvVars\<close> writes into the map it is iterating over, and the function it
  hands to \<^verbatim>\<open>os.Expand\<close> reads that same map: a reference sees the value the
  referenced key has at that moment of the loop.
\<close>

definition expandEnvVars :: "range_oracle \<Rightarrow> EnvMap \<Rightarrow> EnvMap" where
  "expandEnvVars ord envVars =
     fold (\<lambda>key env. case env key of
                        None \<Rightarrow> env
                      | Some value \<Rightarrow> env(key \<mapsto> Expand value (lookup env)))
       (ord envVars) envVars"

subsection \<open>Output\<close>

definition sortEnvVars :: "range_oracle \<Rightarrow> EnvMap \<Rightarrow> string list" where
  "sortEnvVars ord envVars = map (\<lambda>k. k @ ''='' @ lookup envVars k) (sort (ord envVars))"

definition printExportableEnvVars :: "string list \<Rightarrow> effect list" where
  "printExportableEnvVars sortedEnvVars =
     map (\<lambda>v. let parts = SplitN2 v;
                  key = parts ! 0;
                  value = (if length parts > 1 then parts ! 1 else []);
                  quotedValue = [dquote] @ ReplaceAll value [dquote] [backslash, dquote] @ [dquote]
              in Stdout (''export '' @ key @ ''='' @ quotedValue @ [newline]))
       sortedEnvVars"

text \<open>
  \<^verbatim>\<open>handleExecution\<close> runs the command with the inherited environment followed by
  the variables. \<open>environ\<close> is \<^verbatim>\<open>os.Environ()\<close>, and \<open>run\<close> gives the error of
  \<^verbatim>\<open>cmd.Run()\<close>, if any.
\<close>

definition handleExecution ::
  "string list \<Rightarrow> (string list \<Rightarrow> string list \<Rightarrow> string option) \<Rightarrow> string list \<Rightarrow> string list
     \<Rightarrow> effect list" where
  "handleExecution environ run cmdArgs envVars =
     Ran cmdArgs (environ @ envVars) #
       (case run cmdArgs (environ @ envVars) of
          None \<Rightarrow> []
        | Some err \<Rightarrow> [Logged ''Error executing command'' (Error err)])"

subsection \<open>\<^verbatim>\<open>main\<close>\<close>

text \<open>The first part of \<^verbatim>\<open>main\<close>: loading the files and merging the command-line
  variables into the result.\<close>

definition mergedEnvVars :: "range_oracle \<Rightarrow> filesystem \<Rightarrow> Args \<Rightarrow> failure + EnvMap" where
  "mergedEnvVars ord fs args =
     (case loadEnvFiles ord fs (EnvFiles args) (Override args) of
        Inl err \<Rightarrow> Inl err
      | Inr envVars \<Rightarrow> Inr (mergeEnvVars ord envVars (parseCommandLineVars (Vars args))))"

definition main ::
  "range_oracle \<Rightarrow> filesystem \<Rightarrow> string list \<Rightarrow> (string list \<Rightarrow> string list \<Rightarrow> string option)
     \<Rightarrow> Args \<Rightarrow> effect list" where
  "main ord fs environ run args =
     (case mergedEnvVars ord fs args of
        Inl err \<Rightarrow> [Logged ''Error loading env files'' err]
      | Inr envVars \<Rightarrow>
          (let envVars = (if \<not> NoExpand args then expandEnvVars ord envVars else envVars);
               sortedEnvVars = sortEnvVars ord envVars
           in if length (Cmd args) = 0 then printExportableEnvVars sortedEnvVars
              else handleExecution environ run (Cmd args) sortedEnvVars))"

section \<open>The simple program\<close>

record simple_Args =
  File :: string
  Eval :: bool
  Unset :: bool

text \<open>
  The slice expression \<^verbatim>\<open>s[lo:hi]\<close> of Go on a string: it panics unless
  \<open>lo \<le> hi \<le> len(s)\<close>.
\<close>

definition slice :: "string \<Rightarrow> nat \<Rightarrow> nat \<Rightarrow> failure + string" where
  "slice s lo hi =
     (if lo \<le> hi \<and> hi \<le> length s then Inr (take (hi - lo) (drop lo s))
      else Inl (Panic ''slice bounds out of range''))"

text \<open>
  \<^verbatim>\<open>cleanValue\<close>. After the test for the empty string the value has at least one
  byte, so \<^verbatim>\<open>value[0]\<close> and \<^verbatim>\<open>value[len(value)-1]\<close> are in range.
\<close>

definition cleanValue :: "string \<Rightarrow> failure + string" where
  "cleanValue value0 =
     (let value = TrimSpace value0 in
      if length value = 0 then Inr value
      else
        (case (if (value ! 0 = dquote \<and> value ! (length value - 1) = dquote) \<or>
                  (value ! 0 = squote \<and> value ! (length value - 1) = squote) \<or>
                  (value ! 0 = backtick \<and> value ! (length value - 1) = backtick)
               then slice value 1 (length value - 1)
               else Inr value) of
           Inl p \<Rightarrow> Inl p
         | Inr value \<Rightarrow>
             (let value = TrimSpace value;
                  value = ReplaceAll value [backslash, dquote] [dquote];
                  value = ReplaceAll value [backslash, squote] [squote];
                  value = ReplaceAll value [backslash, backtick] [backtick]
              in Inr value)))"

fun simple_parseEnvFile_loop :: "string list \<Rightarrow> EnvMap \<Rightarrow> failure + EnvMap" where
  "simple_parseEnvFile_loop [] envVars = Inr envVars"
| "simple_parseEnvFile_loop (text # rest) envVars =
     (let line = TrimSpace text in
      if line = [] \<or> HasPrefix line ''#'' then simple_parseEnvFile_loop rest envVars
      else
        (case envLinePattern line of
           None \<Rightarrow> simple_parseEnvFile_loop rest envVars
         | Some (m1, m2) \<Rightarrow>
             (let key = TrimSpace m1 in
              case cleanValue (TrimSpace m2) of
                Inl p \<Rightarrow> Inl p
              | Inr value \<Rightarrow> simple_parseEnvFile_loop rest (envVars(key \<mapsto> value)))))"

definition simple_parseEnvFile :: "filesystem \<Rightarrow> string \<Rightarrow> failure + EnvMap" where
  "simple_parseEnvFile fs filePath =
     (case fs filePath of
        OpenFails err \<Rightarrow> Inl (Error err)
      | Scanned lines scanErr \<Rightarrow>
          (case simple_parseEnvFile_loop lines Map.empty of
             Inl p \<Rightarrow> Inl p
           | Inr envVars \<Rightarrow>
               (case scanErr of
                  Some err \<Rightarrow> Inl (Error err)
                | None \<Rightarrow> Inr envVars)))"

definition displayEnvVars :: "range_oracle \<Rightarrow> EnvMap \<Rightarrow> effect list" where
  "displayEnvVars ord envVars =
     Stdout (''Evaluated environment variables:'' @ [newline]) #
     map (\<lambda>key. Stdout (key @ ''='' @ lookup envVars key @ [newline])) (ord envVars)"

definition simple_main :: "range_oracle \<Rightarrow> filesystem \<Rightarrow> simple_Args \<Rightarrow> effect list" where
  "simple_main ord fs args =
     (let filePath = (if File args \<noteq> [] then File args else ''.env'') in
      case simple_parseEnvFile fs filePath of
        Inl (Error err) \<Rightarrow> [Logged ''Error parsing env file'' (Error err)]
      | Inl (Panic p) \<Rightarrow> [Crashed p]
      | Inr envVars \<Rightarrow>
          if Eval args then displayEnvVars ord envVars
          else if Unset args then
            map (\<lambda>key. Stdout (''unset '' @ key @ [newline])) (ord envVars)
          else
            map (\<lambda>key. Stdout (''export '' @ key @ ''='' @ lookup envVars key @ [newline]))
              (ord envVars))"

section \<open>Notions of the specification\<close>

text \<open>
  The specification speaks of the first and of the last file that defines a key. For a list
  of parsed files, in the order given, \<open>first_definition\<close> is the value of the key in the
  first map that has it and \<open>last_definition\<close> the value in the last one. They are written
  from the specification's words, to be compared with what \<open>loadEnvFiles\<close> computes.
\<close>

fun first_definition :: "EnvMap list \<Rightarrow> string \<Rightarrow> string option" where
  "first_definition [] k = None"
| "first_definition (m # ms) k = (case m k of Some v \<Rightarrow> Some v | None \<Rightarrow> first_definition ms k)"

definition last_definition :: "EnvMap list \<Rightarrow> string \<Rightarrow> string option" where
  "last_definition ms k = first_definition (rev ms) k"

section \<open>Example inputs\<close>

text \<open>
  Concrete inputs for the examples below. \<open>ord_listed ks\<close> visits the keys of a map in
  the order in which they stand in \<open>ks\<close>; it is an order of every map whose keys are
  among \<open>ks\<close>. \<open>fs_two_files\<close> holds the file \<^verbatim>\<open>F1\<close> with the line \<^verbatim>\<open>A=1\<close> and
  the file \<^verbatim>\<open>F2\<close> with the line \<^verbatim>\<open>A=2\<close>, and no other file.
\<close>

definition ord_listed :: "string list \<Rightarrow> range_oracle" where
  "ord_listed ks m = filter (\<lambda>k. m k \<noteq> None) ks"

definition fs_two_files :: filesystem where
  "fs_two_files path =
     (if path = ''F1'' then Scanned [''A=1''] None
      else if path = ''F2'' then Scanned [''A=2''] None
      else OpenFails ''no such file'')"

definition fs_one_file :: "string list \<Rightarrow> filesystem" where
  "fs_one_file lines path = Scanned lines None"

section \<open>The model on the repository's tests and on the examples of the specification\<close>

text \<open>
  The tables of \<^verbatim>\<open>TestCleanValue\<close> and \<^verbatim>\<open>TestEnvLinePattern\<close> of the simple
  program's test file, the lines of its \<^verbatim>\<open>TestParseEnvFile\<close>, and examples of the
  multi-file program's parsing and expansion, evaluated on the definitions above.
\<close>

lemma TestCleanValue:
  "cleanValue ([dquote] @ ''hello'' @ [dquote]) = Inr ''hello''"
  "cleanValue ([squote] @ ''world'' @ [squote]) = Inr ''world''"
  "cleanValue ([backtick] @ ''test'' @ [backtick]) = Inr ''test''"
  "cleanValue ''no_quotes'' = Inr ''no_quotes''"
  "cleanValue ([dquote] @ ''escaped'' @ [backslash, dquote] @ ''quote'' @ [dquote])
     = Inr (''escaped'' @ [dquote] @ ''quote'')"
  "cleanValue ([squote] @ ''escaped'' @ [backslash, squote] @ ''quote'' @ [squote])
     = Inr (''escaped'' @ [squote] @ ''quote'')"
  "cleanValue ([backtick] @ ''escaped'' @ [backslash, backtick] @ ''tick'' @ [backtick])
     = Inr (''escaped'' @ [backtick] @ ''tick'')"
  "cleanValue '' '' = Inr []"
  "cleanValue [dquote, dquote] = Inr []"
  "cleanValue ([dquote] @ ''leading space '' @ [dquote]) = Inr ''leading space''"
  by code_simp+

lemma TestEnvLinePattern:
  "envLinePattern ''KEY=value'' \<noteq> None"
  "envLinePattern (''KEY='' @ [squote] @ ''value with spaces'' @ [squote]) \<noteq> None"
  "envLinePattern (''KEY='' @ [backtick] @ ''value with backticks'' @ [backtick]) \<noteq> None"
  "envLinePattern ''# This is a comment'' = None"
  "envLinePattern '' '' = None"
  "envLinePattern ''invalid line'' = None"
  by code_simp+

lemma TestParseEnvFile_lines:
  "envLinePattern ''KEY=value'' = Some (''KEY'', ''value'')"
  "envLinePattern ''KEY=value # inline comment'' = Some (''KEY'', ''value'')"
  "envLinePattern (''KEY='' @ [squote] @ ''value with spaces'' @ [squote])
     = Some (''KEY'', [squote] @ ''value with spaces'' @ [squote])"
  "envLinePattern (''KEY=value'' @ [backslash] @ '' with'' @ [backslash] @ '' backslashes'')
     = Some (''KEY'', ''value'' @ [backslash] @ '' with'' @ [backslash] @ '' backslashes'')"
  "envLinePattern ''KEY='' = Some (''KEY'', [])"
  by code_simp+

lemma parseLine_examples:
  "parseLine ''KEY=value # comment'' = (''KEY'', ''value'', False, CHR 0x00)"
  "parseLine (''KEY='' @ [dquote] @ ''value # not a comment'' @ [dquote])
     = (''KEY'', ''value # not a comment'', False, CHR 0x00)"
  "parseLine (''KEY='' @ [squote] @ ''a$b'' @ [squote]) = (''KEY'', ''a$b'', False, CHR 0x00)"
  "parseLine (''KEY='' @ [dquote] @ ''L1'') = (''KEY'', ''L1'', True, dquote)"
  "parseLine ''1KEY=value'' = ([], [], False, CHR 0x00)"
  by code_simp+

lemma Expand_examples:
  "Expand ''${A}bar'' (lookup [''A'' \<mapsto> ''foo'']) = ''foobar''"
  "Expand ''${UNDEFINED}x'' (lookup [''A'' \<mapsto> ''foo'']) = ''x''"
  "Expand ''$A-$B'' (lookup [''A'' \<mapsto> ''foo'']) = ''foo-''"
  by code_simp+

lemma multiline_example:
  "(case parseEnvFile (fs_one_file [''KEY='' @ [dquote] @ ''L1'', ''L2'' @ [dquote]]) ''.env'' of
      Inr envVars \<Rightarrow> envVars ''KEY''
    | Inl err \<Rightarrow> None)
   = Some (''L1'' @ [newline] @ ''L2'')"
  by code_simp

section \<open>Facts about package strings\<close>

text \<open>
  A string is left alone by \<^verbatim>\<open>TrimSpace\<close> exactly when no white-space character
  stands at its front or at its end; a character that is in no white-space encoding
  separates what is before it from the trimming of what is after it.
\<close>

lemma HasPrefix_prefix: "HasPrefix s p \<longleftrightarrow> prefix p s"
  unfolding HasPrefix_def prefix_def
  by (metis append_eq_conv_conj append_take_drop_id)

lemma HasSuffix_suffix: "HasSuffix s p \<longleftrightarrow> suffix p s"
proof
  assume "HasSuffix s p"
  then have "s = take (length s - length p) s @ p"
    unfolding HasSuffix_def by (metis append_take_drop_id)
  then show "suffix p s" unfolding suffix_def by blast
next
  assume "suffix p s"
  then obtain zs where "s = zs @ p" unfolding suffix_def by blast
  then show "HasSuffix s p" by (simp add: HasSuffix_def)
qed

lemma spaces_nonempty: "e \<in> set spaces \<Longrightarrow> e \<noteq> []"
  by (auto simp: spaces_def)

lemma leadingSpace_0_iff: "leadingSpace s = 0 \<longleftrightarrow> (\<forall>e \<in> set spaces. \<not> prefix e s)"
  by (auto simp: leadingSpace_def find_None_iff find_Some_iff HasPrefix_prefix
        split: option.splits dest: spaces_nonempty nth_mem)

lemma trailingSpace_0_iff: "trailingSpace s = 0 \<longleftrightarrow> (\<forall>e \<in> set spaces. \<not> suffix e s)"
  by (auto simp: trailingSpace_def find_None_iff find_Some_iff HasSuffix_suffix
        split: option.splits dest: spaces_nonempty nth_mem)

lemma TrimLeft_length: "length (TrimLeft s) \<le> length s"
proof (induction s rule: TrimLeft.induct)
  case (1 s)
  show ?case
  proof (cases "s = [] \<or> leadingSpace s = 0")
    case True
    then show ?thesis by (simp add: TrimLeft.simps)
  next
    case False
    with "1" have "length (TrimLeft (drop (leadingSpace s) s)) \<le> length (drop (leadingSpace s) s)"
      by simp
    with False show ?thesis by (subst TrimLeft.simps) simp
  qed
qed

lemma TrimRight_length: "length (TrimRight s) \<le> length s"
proof (induction s rule: TrimRight.induct)
  case (1 s)
  show ?case
  proof (cases "s = [] \<or> trailingSpace s = 0")
    case True
    then show ?thesis by (simp add: TrimRight.simps)
  next
    case False
    with "1" have "length (TrimRight (take (length s - trailingSpace s) s))
                   \<le> length (take (length s - trailingSpace s) s)"
      by simp
    with False show ?thesis by (subst TrimRight.simps) simp
  qed
qed

lemma TrimLeft_same_length:
  assumes "length (TrimLeft s) = length s"
  shows "s = [] \<or> leadingSpace s = 0"
proof (rule ccontr)
  assume n: "\<not> (s = [] \<or> leadingSpace s = 0)"
  then have "TrimLeft s = TrimLeft (drop (leadingSpace s) s)"
    by (subst TrimLeft.simps) simp
  moreover have "length (TrimLeft (drop (leadingSpace s) s)) \<le> length (drop (leadingSpace s) s)"
    by (rule TrimLeft_length)
  moreover from n have "length (drop (leadingSpace s) s) < length s" by simp
  ultimately show False using assms by simp
qed

lemma TrimRight_same_length:
  assumes "length (TrimRight s) = length s"
  shows "s = [] \<or> trailingSpace s = 0"
proof (rule ccontr)
  assume n: "\<not> (s = [] \<or> trailingSpace s = 0)"
  then have "TrimRight s = TrimRight (take (length s - trailingSpace s) s)"
    by (subst TrimRight.simps) simp
  moreover have "length (TrimRight (take (length s - trailingSpace s) s))
                 \<le> length (take (length s - trailingSpace s) s)"
    by (rule TrimRight_length)
  moreover from n have "length (take (length s - trailingSpace s) s) < length s" by simp
  ultimately show False using assms by simp
qed

lemma TrimSpace_id:
  assumes "s = [] \<or> leadingSpace s = 0" and "s = [] \<or> trailingSpace s = 0"
  shows "TrimSpace s = s"
  using assms by (auto simp: TrimSpace_def TrimLeft.simps TrimRight.simps)

lemma TrimSpace_fixed:
  assumes "TrimSpace v = v"
  shows "(v = [] \<or> leadingSpace v = 0) \<and> (v = [] \<or> trailingSpace v = 0)"
proof -
  have "length v = length (TrimRight (TrimLeft v))"
    using assms by (simp add: TrimSpace_def)
  also have "\<dots> \<le> length (TrimLeft v)" by (rule TrimRight_length)
  finally have "length (TrimLeft v) = length v"
    using TrimLeft_length [of v] by simp
  then have l: "v = [] \<or> leadingSpace v = 0" by (rule TrimLeft_same_length)
  then have "TrimLeft v = v" by (auto simp: TrimLeft.simps)
  with assms have "TrimRight v = v" by (simp add: TrimSpace_def)
  then have "v = [] \<or> trailingSpace v = 0" by (intro TrimRight_same_length) simp
  with l show ?thesis by simp
qed

lemma leadingSpace_Cons:
  assumes "\<forall>e \<in> set spaces. hd e \<noteq> c"
  shows "leadingSpace (c # cs) = 0"
  unfolding leadingSpace_0_iff
proof
  fix e assume e: "e \<in> set spaces"
  with assms spaces_nonempty obtain x xs where "e = x # xs" "x \<noteq> c"
    by (cases e) auto
  then show "\<not> prefix e (c # cs)" by simp
qed

lemma trailingSpace_snoc:
  assumes "\<forall>e \<in> set spaces. last e \<noteq> c"
  shows "trailingSpace (cs @ [c]) = 0"
  unfolding trailingSpace_0_iff
proof
  fix e assume e: "e \<in> set spaces"
  with assms spaces_nonempty have "e \<noteq> []" "last e \<noteq> c" by auto
  then show "\<not> suffix e (cs @ [c])" by auto
qed

lemma trailingSpace_append:
  assumes c: "\<forall>e \<in> set spaces. c \<notin> set e"
      and v: "v = [] \<or> trailingSpace v = 0"
  shows "trailingSpace (a @ c # v) = 0"
  unfolding trailingSpace_0_iff
proof
  fix e assume e: "e \<in> set spaces"
  show "\<not> suffix e (a @ c # v)"
  proof
    assume "suffix e (a @ c # v)"
    then consider "suffix e v" | xs where "e = xs @ c # v"
      by (auto simp: suffix_append suffix_Cons)
    then show False
    proof cases
      case 1
      with v e spaces_nonempty show False
        by (auto simp: trailingSpace_0_iff)
    next
      case 2
      with c e show False by auto
    qed
  qed
qed

lemma leadingSpace_not_reSpace:
  assumes "leadingSpace v = 0"
  shows "dropWhile reSpace v = v"
proof (cases v)
  case Nil
  then show ?thesis by simp
next
  case (Cons x xs)
  have "\<not> reSpace x"
  proof
    assume "reSpace x"
    then have "[x] \<in> set spaces" by (auto simp: reSpace_def spaces_def)
    moreover have "prefix [x] v" using Cons by simp
    ultimately show False using assms by (auto simp: leadingSpace_0_iff)
  qed
  with Cons show ?thesis by simp
qed

lemma identStart_not_space_lead: "identStart c \<Longrightarrow> \<forall>e \<in> set spaces. hd e \<noteq> c"
  by (auto simp: identStart_def spaces_def)

lemma identChar_not_space_last: "identChar c \<Longrightarrow> \<forall>e \<in> set spaces. last e \<noteq> c"
  by (auto simp: identChar_def identStart_def spaces_def)

lemma equals_not_in_spaces: "\<forall>e \<in> set spaces. CHR ''='' \<notin> set e"
  by (simp add: spaces_def)

lemma quote_not_space:
  assumes "q \<in> {dquote, squote, backtick}"
  shows "\<forall>e \<in> set spaces. hd e \<noteq> q" and "\<forall>e \<in> set spaces. last e \<noteq> q"
  using assms by (auto simp: spaces_def)

lemma TrimSpace_quoted:
  assumes "q \<in> {dquote, squote, backtick}"
  shows "TrimSpace (q # body @ [q]) = q # body @ [q]"
proof -
  have "leadingSpace (q # body @ [q]) = 0"
    using quote_not_space(1) [OF assms] by (rule leadingSpace_Cons)
  moreover have "trailingSpace ((q # body) @ [q]) = 0"
    using quote_not_space(2) [OF assms] by (rule trailingSpace_snoc)
  ultimately show ?thesis by (simp add: TrimSpace_id)
qed

lemma ReplaceAll_absent:
  assumes "old \<noteq> []" "hd old \<notin> set s"
  shows "ReplaceAll s old new = s"
  using assms
proof (induction s)
  case Nil
  then show ?case by (simp add: ReplaceAll.simps)
next
  case (Cons c s)
  from Cons.prems have "\<not> HasPrefix (c # s) old"
    by (cases old) (auto simp: HasPrefix_prefix)
  with Cons show ?case
    by (subst ReplaceAll.simps) simp
qed

section \<open>Facts about the merge of several files\<close>

text \<open>
  The loop over one file's variables in \<open>loadEnvFiles\<close> gives the same map for every
  order of the visit: with override the file's variables are laid over the map, without
  override they are laid under it.
\<close>

lemma fold_merge_file:
  assumes "distinct ks"
  shows "fold (\<lambda>k env. case fileVars k of
                          None \<Rightarrow> env
                        | Some v \<Rightarrow> if override \<or> \<not> existsInMap env k then env(k \<mapsto> v) else env)
           ks envVars
         = (\<lambda>k. if k \<in> set ks
                 then (case fileVars k of
                         None \<Rightarrow> envVars k
                       | Some v \<Rightarrow> if override \<or> envVars k = None then Some v else envVars k)
                 else envVars k)"
  using assms
proof (induction ks arbitrary: envVars)
  case Nil
  then show ?case by simp
next
  case (Cons a ks)
  then show ?case
    by (auto simp: existsInMap_def fun_eq_iff split: option.splits)
qed

lemma merge_file_range:
  assumes "range_order fileVars ks"
  shows "fold (\<lambda>k env. case fileVars k of
                          None \<Rightarrow> env
                        | Some v \<Rightarrow> if override \<or> \<not> existsInMap env k then env(k \<mapsto> v) else env)
           ks envVars
         = (if override then envVars ++ fileVars else fileVars ++ envVars)"
proof -
  from assms have d: "distinct ks" and s: "set ks = dom fileVars"
    by (simp_all add: range_order_def)
  show ?thesis
    unfolding fold_merge_file [OF d] s
    by (auto simp: fun_eq_iff map_add_def dom_def split: option.splits)
qed

lemma loadEnvFiles_loop_all_parsed:
  assumes "list_all2 (\<lambda>f m. parseEnvFile fs f = Inr m) files ms"
      and "\<forall>m \<in> set ms. range_order m (ord m)"
  shows "loadEnvFiles_loop ord fs override files envVars
         = Inr (foldl (\<lambda>env m. if override then env ++ m else m ++ env) envVars ms)"
  using assms
proof (induction files ms arbitrary: envVars rule: list_all2_induct)
  case Nil
  then show ?case by simp
next
  case (Cons f m files ms)
  then show ?case by (simp add: merge_file_range)
qed

lemma foldl_first_wins:
  "foldl (\<lambda>env m. m ++ env) envVars ms k
   = (case envVars k of Some v \<Rightarrow> Some v | None \<Rightarrow> first_definition ms k)"
  by (induction ms arbitrary: envVars) (auto simp: map_add_def split: option.splits)

lemma foldl_last_wins:
  "foldl (\<lambda>env m. env ++ m) envVars ms k
   = (case last_definition ms k of Some v \<Rightarrow> Some v | None \<Rightarrow> envVars k)"
proof (induction ms arbitrary: envVars rule: rev_induct)
  case Nil
  then show ?case by (simp add: last_definition_def)
next
  case (snoc m ms)
  then show ?case
    by (auto simp: last_definition_def map_add_def split: option.splits)
qed


lemma first_definition_index:
  "first_definition ms k = Some v \<longleftrightarrow>
     (\<exists>i < length ms. (ms ! i) k = Some v \<and> (\<forall>j < i. (ms ! j) k = None))"
proof (induction ms)
  case Nil
  then show ?case by simp
next
  case (Cons m ms)
  show ?case
  proof (cases "m k")
    case None
    have "(\<exists>i < length (m # ms). ((m # ms) ! i) k = Some v \<and> (\<forall>j < i. ((m # ms) ! j) k = None))
          \<longleftrightarrow> (\<exists>i < length ms. (ms ! i) k = Some v \<and> (\<forall>j < i. (ms ! j) k = None))"
      (is "?L \<longleftrightarrow> ?R")
    proof
      assume ?L
      then obtain i where i: "i < length (m # ms)" "((m # ms) ! i) k = Some v"
        "\<forall>j < i. ((m # ms) ! j) k = None" by blast
      with None obtain i' where "i = Suc i'" by (cases i) auto
      with i show ?R by (auto intro!: exI [of _ i'])
    next
      assume ?R
      then obtain i where i: "i < length ms" "(ms ! i) k = Some v" "\<forall>j < i. (ms ! j) k = None"
        by blast
      show ?L
        using i None by (auto intro!: exI [of _ "Suc i"] simp: nth_Cons split: nat.splits)
    qed
    with None Cons show ?thesis by simp
  next
    case (Some w)
    have "(\<exists>i < length (m # ms). ((m # ms) ! i) k = Some v \<and> (\<forall>j < i. ((m # ms) ! j) k = None))
          \<longleftrightarrow> w = v"
      (is "?L \<longleftrightarrow> _")
    proof
      assume ?L
      then obtain i where i: "((m # ms) ! i) k = Some v" "\<forall>j < i. ((m # ms) ! j) k = None"
        by blast
      have "i = 0"
      proof (rule ccontr)
        assume "i \<noteq> 0"
        with i(2) have "((m # ms) ! 0) k = None" by blast
        with Some show False by simp
      qed
      with i(1) Some show "w = v" by simp
    next
      assume "w = v"
      with Some show ?L by (auto intro!: exI [of _ 0])
    qed
    with Some show ?thesis by simp
  qed
qed

lemma last_definition_snoc:
  "last_definition (ms @ [m]) k = (case m k of Some v \<Rightarrow> Some v | None \<Rightarrow> last_definition ms k)"
  by (simp add: last_definition_def split: option.splits)

lemma last_definition_index:
  "last_definition ms k = Some v \<longleftrightarrow>
     (\<exists>i < length ms. (ms ! i) k = Some v \<and> (\<forall>j. i < j \<and> j < length ms \<longrightarrow> (ms ! j) k = None))"
proof (induction ms rule: rev_induct)
  case Nil
  then show ?case by (simp add: last_definition_def)
next
  case (snoc m ms)
  let ?R = "\<lambda>xs. \<exists>i < length xs. (xs ! i) k = Some v
                  \<and> (\<forall>j. i < j \<and> j < length xs \<longrightarrow> (xs ! j) k = None)"
  show ?case
  proof (cases "m k")
    case None
    have "?R (ms @ [m]) \<longleftrightarrow> ?R ms"
    proof
      assume "?R (ms @ [m])"
      then obtain i where i: "i < length (ms @ [m])" "((ms @ [m]) ! i) k = Some v"
        "\<forall>j. i < j \<and> j < length (ms @ [m]) \<longrightarrow> ((ms @ [m]) ! j) k = None" by blast
      with None have il: "i < length ms" by (cases "i = length ms") auto
      have "\<forall>j. i < j \<and> j < length ms \<longrightarrow> (ms ! j) k = None"
      proof (intro allI impI)
        fix j assume j: "i < j \<and> j < length ms"
        with i(3) have "((ms @ [m]) ! j) k = None" by simp
        with j show "(ms ! j) k = None" by (simp add: nth_append)
      qed
      with i(2) il show "?R ms" by (auto simp: nth_append)
    next
      assume "?R ms"
      then obtain i where i: "i < length ms" "(ms ! i) k = Some v"
        "\<forall>j. i < j \<and> j < length ms \<longrightarrow> (ms ! j) k = None" by blast
      have "\<forall>j. i < j \<and> j < length (ms @ [m]) \<longrightarrow> ((ms @ [m]) ! j) k = None"
        using i(3) None by (auto simp: nth_append)
      with i(1,2) show "?R (ms @ [m])"
        by (intro exI [of _ i]) (simp add: nth_append)
    qed
    with None snoc show ?thesis by (simp add: last_definition_snoc)
  next
    case (Some w)
    have "?R (ms @ [m]) \<longleftrightarrow> w = v"
    proof
      assume "?R (ms @ [m])"
      then obtain i where i: "i < length (ms @ [m])" "((ms @ [m]) ! i) k = Some v"
        "\<forall>j. i < j \<and> j < length (ms @ [m]) \<longrightarrow> ((ms @ [m]) ! j) k = None" by blast
      have "i = length ms"
      proof (rule ccontr)
        assume "i \<noteq> length ms"
        with i(1) have "i < length ms" by simp
        then have "i < length ms \<and> length ms < length (ms @ [m])" by simp
        with i(3) have "((ms @ [m]) ! length ms) k = None" by blast
        with Some show False by simp
      qed
      with i(2) Some show "w = v" by simp
    next
      assume "w = v"
      with Some show "?R (ms @ [m])"
        by (intro exI [of _ "length ms"]) auto
    qed
    with Some show ?thesis by (simp add: last_definition_snoc)
  qed
qed

subsection \<open>The example files\<close>

lemma range_order_ord_listed:
  "distinct ks \<Longrightarrow> dom m \<subseteq> set ks \<Longrightarrow> range_order m (ord_listed ks m)"
  by (auto simp: range_order_def ord_listed_def)

lemma isCommentOrEmpty_Cons:
  "isCommentOrEmpty (c # cs) \<longleftrightarrow> c = CHR ''#''"
  by (simp add: isCommentOrEmpty_def HasPrefix_def)

lemma parseEnvFile_step_plain:
  assumes "TrimSpace text = c # cs" "c \<noteq> CHR ''#''" "\<not> st_multiline st"
      and "parseLine (c # cs) = (key, val, False, CHR 0x00)"
  shows "parseEnvFile_step st text
         = st\<lparr>st_key := key, st_multiline := False, st_quoteType := CHR 0x00,
              st_envVars := (st_envVars st)(key \<mapsto> val)\<rparr>"
  using assms by (simp add: parseEnvFile_step_def isCommentOrEmpty_Cons)

lemma parse_A1: "parseEnvFile fs_two_files ''F1'' = Inr [''A'' \<mapsto> ''1'']"
proof -
  have t: "TrimSpace ''A=1'' = ''A=1''" by code_simp
  have p: "parseLine ''A=1'' = (''A'', ''1'', False, CHR 0x00)" by code_simp
  have "parseEnvFile_step parseEnvFile_init ''A=1'' = parseEnvFile_init\<lparr>st_key := ''A'', st_multiline := False, st_quoteType := CHR 0x00,
              st_envVars := (st_envVars parseEnvFile_init)(''A'' \<mapsto> ''1'')\<rparr>"
    by (rule parseEnvFile_step_plain [OF t _ _ p]) (simp_all add: parseEnvFile_init_def)
  then show ?thesis
    by (simp add: parseEnvFile_def fs_two_files_def parseEnvFile_init_def)
qed

lemma parse_A2: "parseEnvFile fs_two_files ''F2'' = Inr [''A'' \<mapsto> ''2'']"
proof -
  have t: "TrimSpace ''A=2'' = ''A=2''" by code_simp
  have p: "parseLine ''A=2'' = (''A'', ''2'', False, CHR 0x00)" by code_simp
  have "parseEnvFile_step parseEnvFile_init ''A=2'' = parseEnvFile_init\<lparr>st_key := ''A'', st_multiline := False, st_quoteType := CHR 0x00,
              st_envVars := (st_envVars parseEnvFile_init)(''A'' \<mapsto> ''2'')\<rparr>"
    by (rule parseEnvFile_step_plain [OF t _ _ p]) (simp_all add: parseEnvFile_init_def)
  then show ?thesis
    by (simp add: parseEnvFile_def fs_two_files_def parseEnvFile_init_def)
qed


subsection \<open>First or last definition of a key\<close>

text \<open>
  Claim C1. When every file of the list parses, \<open>loadEnvFiles\<close> returns, for every key,
  the value of the first file that defines it when override is off, and the value of the
  last file that defines it when override is on. (A key no file defines is absent.) The
  list of files is the one given, or the single file \<^verbatim>\<open>.env\<close> when none is given.
\<close>

theorem loadEnvFiles_precedence:
  assumes "list_all2 (\<lambda>f m. parseEnvFile fs f = Inr m)
             (if files = [] then [''.env''] else files) ms"
      and "\<forall>m \<in> set ms. range_order m (ord m)"
  shows "loadEnvFiles ord fs files override
         = Inr (if override then last_definition ms else first_definition ms)"
proof -
  have "loadEnvFiles ord fs files override
        = Inr (foldl (\<lambda>env m. if override then env ++ m else m ++ env) Map.empty ms)"
    unfolding loadEnvFiles_def using loadEnvFiles_loop_all_parsed [OF _ assms(2)] assms(1)
    by simp
  moreover have "foldl (\<lambda>env m. if override then env ++ m else m ++ env) Map.empty ms
        = (if override then last_definition ms else first_definition ms)"
    by (auto simp: fun_eq_iff foldl_first_wins foldl_last_wins split: option.splits)
  ultimately show ?thesis by simp
qed


text \<open>
  The example of the specification: \<^verbatim>\<open>F1\<close> holds \<^verbatim>\<open>A=1\<close> and \<^verbatim>\<open>F2\<close> holds
  \<^verbatim>\<open>A=2\<close>; the merged \<^verbatim>\<open>A\<close> is \<open>1\<close> without override and \<open>2\<close> with it.
\<close>

theorem loadEnvFiles_precedence_witness:
  "loadEnvFiles (ord_listed [''A'']) fs_two_files [''F1'', ''F2''] False
     = Inr (first_definition [[''A'' \<mapsto> ''1''], [''A'' \<mapsto> ''2'']])
   \<and> first_definition [[''A'' \<mapsto> ''1''], [''A'' \<mapsto> ''2'']] ''A'' = Some ''1''
   \<and> loadEnvFiles (ord_listed [''A'']) fs_two_files [''F1'', ''F2''] True
     = Inr (last_definition [[''A'' \<mapsto> ''1''], [''A'' \<mapsto> ''2'']])
   \<and> last_definition [[''A'' \<mapsto> ''1''], [''A'' \<mapsto> ''2'']] ''A'' = Some ''2''"
proof -
  let ?ms = "[[''A'' \<mapsto> ''1''], [''A'' \<mapsto> ''2'']]"
  have files: "list_all2 (\<lambda>f m. parseEnvFile fs_two_files f = Inr m)
                 (if [''F1'', ''F2''] = [] then [''.env''] else [''F1'', ''F2'']) ?ms"
    by (simp add: parse_A1 parse_A2)
  have orders: "\<forall>m \<in> set ?ms. range_order m (ord_listed [''A''] m)"
    by (simp add: range_order_ord_listed)
  show ?thesis
    using loadEnvFiles_precedence [OF files orders, of False]
          loadEnvFiles_precedence [OF files orders, of True]
    by (simp add: last_definition_def)
qed


subsection \<open>Command-line variables\<close>

lemma mergeEnvVars_map_add:
  assumes "range_order cmdVars (ord cmdVars)"
  shows "mergeEnvVars ord envVars cmdVars = envVars ++ cmdVars"
  unfolding mergeEnvVars_def
  using merge_file_range [OF assms, of True envVars]
  by (simp cong: option.case_cong)


text \<open>
  What \<^verbatim>\<open>parseCommandLineVars\<close> makes of the last \<^verbatim>\<open>-v\<close> argument: \<^verbatim>\<open>K=V\<close>
  sets \<^verbatim>\<open>K\<close> to \<^verbatim>\<open>V\<close> (the value is everything after the first \<^verbatim>\<open>=\<close>), and
  an argument without \<^verbatim>\<open>=\<close> sets that name to the empty string.
\<close>

lemma SplitN2_pair:
  assumes "CHR ''='' \<notin> set k"
  shows "SplitN2 (k @ ''='' @ x) = [k, x]"
proof -
  from assms have "\<forall>c \<in> set k. c \<noteq> CHR ''=''" by auto
  then have "takeWhile (\<lambda>c. c \<noteq> CHR ''='') (k @ ''='' @ x) = k"
    and "dropWhile (\<lambda>c. c \<noteq> CHR ''='') (k @ ''='' @ x) = ''='' @ x"
    by (simp_all add: takeWhile_append2 dropWhile_append2)
  then show ?thesis by (simp add: SplitN2_def)
qed

lemma parseCommandLineVars_pair:
  assumes "CHR ''='' \<notin> set k"
  shows "parseCommandLineVars (vars @ [k @ ''='' @ x]) = (parseCommandLineVars vars)(k \<mapsto> x)"
  using SplitN2_pair [OF assms, of x] by (simp add: parseCommandLineVars_def)

lemma parseCommandLineVars_bare:
  assumes "CHR ''='' \<notin> set k"
  shows "parseCommandLineVars (vars @ [k]) = (parseCommandLineVars vars)(k \<mapsto> [])"
  using assms by (simp add: parseCommandLineVars_def SplitN2_def)

lemma parseCommandLineVars_snoc:
  "parseCommandLineVars (vars @ [u])
   = (parseCommandLineVars vars)
       (takeWhile (\<lambda>c. c \<noteq> CHR ''='') u \<mapsto>
          (if CHR ''='' \<in> set u then tl (dropWhile (\<lambda>c. c \<noteq> CHR ''='') u) else []))"
proof (cases "CHR ''='' \<in> set u")
  case True
  then show ?thesis by (simp add: parseCommandLineVars_def SplitN2_def)
next
  case False
  then have tw: "takeWhile (\<lambda>c. c \<noteq> CHR ''='') u = u" by (induction u) auto
  show ?thesis by (simp add: parseCommandLineVars_def SplitN2_def False tw)
qed

lemma key_of_argument:
  assumes "takeWhile (\<lambda>c. c \<noteq> CHR ''='') u = k"
  shows "u = k \<or> prefix (k @ ''='') u"
proof (cases "dropWhile (\<lambda>c. c \<noteq> CHR ''='') u")
  case Nil
  with takeWhile_dropWhile_id [of "\<lambda>c. c \<noteq> CHR ''=''" u] assms show ?thesis by simp
next
  case (Cons x xs)
  with hd_dropWhile [of "\<lambda>c. c \<noteq> CHR ''=''" u] have "x = CHR ''=''" by auto
  with Cons takeWhile_dropWhile_id [of "\<lambda>c. c \<noteq> CHR ''=''" u] assms
  have "u = (k @ ''='') @ xs" by simp
  then show ?thesis unfolding prefix_def by blast
qed

lemma parseCommandLineVars_not_named:
  assumes "\<forall>u \<in> set later. u \<noteq> k \<and> \<not> prefix (k @ ''='') u"
  shows "parseCommandLineVars (vars @ later) k = parseCommandLineVars vars k"
  using assms
proof (induction later rule: rev_induct)
  case Nil
  then show ?case by simp
next
  case (snoc u later)
  then have n: "takeWhile (\<lambda>c. c \<noteq> CHR ''='') u \<noteq> k"
    using key_of_argument [of u k] by auto
  have "parseCommandLineVars ((vars @ later) @ [u]) k = parseCommandLineVars (vars @ later) k"
    using n by (simp only: parseCommandLineVars_snoc fun_upd_other)
  also have "\<dots> = parseCommandLineVars vars k"
    using snoc by simp
  finally show ?case by simp
qed

lemma parseCommandLineVars_last_pair:
  assumes "CHR ''='' \<notin> set k"
      and "\<forall>u \<in> set later. u \<noteq> k \<and> \<not> prefix (k @ ''='') u"
  shows "parseCommandLineVars (earlier @ [k @ ''='' @ v] @ later) k = Some v"
proof -
  have "parseCommandLineVars ((earlier @ [k @ ''='' @ v]) @ later) k
        = parseCommandLineVars (earlier @ [k @ ''='' @ v]) k"
    using assms(2) by (rule parseCommandLineVars_not_named)
  also have "\<dots> = Some v"
    using parseCommandLineVars_pair [OF assms(1), of earlier v] by simp
  finally show ?thesis by simp
qed

lemma parseCommandLineVars_absent:
  assumes "\<forall>u \<in> set vars. u \<noteq> k \<and> \<not> prefix (k @ ''='') u"
  shows "parseCommandLineVars vars k = None"
  using parseCommandLineVars_not_named [OF assms, of "[]"]
  by (simp add: parseCommandLineVars_def)

lemma parse_A1_C5:
  "parseEnvFile (fs_one_file [''A=1'', ''C=5'']) path = Inr [''A'' \<mapsto> ''1'', ''C'' \<mapsto> ''5'']"
proof -
  have t1: "TrimSpace ''A=1'' = ''A=1''" by code_simp
  have p1: "parseLine ''A=1'' = (''A'', ''1'', False, CHR 0x00)" by code_simp
  have t2: "TrimSpace ''C=5'' = ''C=5''" by code_simp
  have p2: "parseLine ''C=5'' = (''C'', ''5'', False, CHR 0x00)" by code_simp
  define st1 where "st1 = parseEnvFile_step parseEnvFile_init ''A=1''"
  have s1: "st1 = parseEnvFile_init\<lparr>st_key := ''A'', st_multiline := False,
              st_quoteType := CHR 0x00, st_envVars := (st_envVars parseEnvFile_init)(''A'' \<mapsto> ''1'')\<rparr>"
    unfolding st1_def
    by (rule parseEnvFile_step_plain [OF t1 _ _ p1]) (simp_all add: parseEnvFile_init_def)
  have s2: "parseEnvFile_step st1 ''C=5'' = st1\<lparr>st_key := ''C'', st_multiline := False,
              st_quoteType := CHR 0x00, st_envVars := (st_envVars st1)(''C'' \<mapsto> ''5'')\<rparr>"
    using t2 p2 by (intro parseEnvFile_step_plain) (simp_all add: s1 parseEnvFile_init_def)
  have "st_envVars (foldl parseEnvFile_step parseEnvFile_init [''A=1'', ''C=5''])
        = [''A'' \<mapsto> ''1'', ''C'' \<mapsto> ''5'']"
    using s2 by (simp add: st1_def [symmetric]) (simp add: s1 parseEnvFile_init_def)
  then show ?thesis
    by (simp add: parseEnvFile_def fs_one_file_def)
qed

lemma loadEnvFiles_A1_C5:
  "loadEnvFiles (ord_listed [''A'', ''B'', ''C'']) (fs_one_file [''A=1'', ''C=5'']) [''F''] override
   = Inr [''A'' \<mapsto> ''1'', ''C'' \<mapsto> ''5'']"
proof -
  have "list_all2 (\<lambda>f m. parseEnvFile (fs_one_file [''A=1'', ''C=5'']) f = Inr m) [''F'']
          [[''A'' \<mapsto> ''1'', ''C'' \<mapsto> ''5'']]"
    by (simp add: parse_A1_C5)
  from loadEnvFiles_loop_all_parsed
         [OF this, of "ord_listed [''A'', ''B'', ''C'']" override Map.empty]
  show ?thesis
    by (simp add: loadEnvFiles_def range_order_ord_listed)
qed

lemma parseCommandLineVars_example:
  "parseCommandLineVars [''A=0'', ''A=3'', ''B=x=y''] = [''A'' \<mapsto> ''3'', ''B'' \<mapsto> ''x=y'']"
  by (simp add: parseCommandLineVars_def SplitN2_def)

text \<open>
  Claim C2. When the files load, the map \<^verbatim>\<open>main\<close> holds after \<^verbatim>\<open>mergeEnvVars\<close>
  gives every key supplied on the command line its command-line value: for every argument
  \<^verbatim>\<open>-v K=V\<close> (\<^verbatim>\<open>K\<close> without \<^verbatim>\<open>=\<close>) that no later \<^verbatim>\<open>-v\<close> argument for the
  same key follows (none that is \<^verbatim>\<open>K\<close> or starts with \<^verbatim>\<open>K=\<close>), the merged value of
  \<^verbatim>\<open>K\<close> is \<^verbatim>\<open>V\<close>, whatever the files hold and whatever the override flag is. A key
  that no \<^verbatim>\<open>-v\<close> argument names keeps what was loaded from the files.
\<close>

theorem command_line_vars_take_precedence:
  assumes "loadEnvFiles ord fs (EnvFiles args) (Override args) = Inr envVars"
      and "range_order (parseCommandLineVars (Vars args)) (ord (parseCommandLineVars (Vars args)))"
  shows "\<exists>merged. mergedEnvVars ord fs args = Inr merged
           \<and> (\<forall>earlier k v later.
                 Vars args = earlier @ [k @ ''='' @ v] @ later \<and> CHR ''='' \<notin> set k
                   \<and> (\<forall>u \<in> set later. u \<noteq> k \<and> \<not> prefix (k @ ''='') u)
                 \<longrightarrow> merged k = Some v)
           \<and> (\<forall>k. (\<forall>u \<in> set (Vars args). u \<noteq> k \<and> \<not> prefix (k @ ''='') u)
                 \<longrightarrow> merged k = envVars k)"
proof -
  let ?merged = "envVars ++ parseCommandLineVars (Vars args)"
  have m: "mergedEnvVars ord fs args = Inr ?merged"
    using assms by (simp add: mergedEnvVars_def mergeEnvVars_map_add)
  have given: "?merged k = Some v"
    if "Vars args = earlier @ [k @ ''='' @ v] @ later" "CHR ''='' \<notin> set k"
       "\<forall>u \<in> set later. u \<noteq> k \<and> \<not> prefix (k @ ''='') u"
    for earlier k v later
    using parseCommandLineVars_last_pair [OF that(2,3), of earlier v] that(1)
    by (simp add: map_add_def)
  have other: "?merged k = envVars k"
    if "\<forall>u \<in> set (Vars args). u \<noteq> k \<and> \<not> prefix (k @ ''='') u" for k
    using parseCommandLineVars_absent [OF that] by (simp add: map_add_def)
  from m given other show ?thesis by blast
qed

text \<open>
  The file holds \<^verbatim>\<open>A=1\<close> and \<^verbatim>\<open>C=5\<close>; the arguments are \<^verbatim>\<open>-v A=0\<close>,
  \<^verbatim>\<open>-v A=3\<close> and \<^verbatim>\<open>-v B=x=y\<close>. The merged map has \<^verbatim>\<open>A=3\<close> (the last argument
  for \<^verbatim>\<open>A\<close>, replacing the file's value), \<^verbatim>\<open>B=x=y\<close>, and \<^verbatim>\<open>C=5\<close> from the file.
\<close>

theorem command_line_vars_take_precedence_witness:
  "\<exists>merged.
     mergedEnvVars (ord_listed [''A'', ''B'', ''C'']) (fs_one_file [''A=1'', ''C=5''])
       \<lparr>EnvFiles = [''F''], NoExpand = False, Override = True,
        Vars = [''A=0'', ''A=3'', ''B=x=y''], Cmd = []\<rparr>
       = Inr merged
     \<and> merged ''A'' = Some ''3'' \<and> merged ''B'' = Some ''x=y'' \<and> merged ''C'' = Some ''5''"
proof -
  let ?ord = "ord_listed [''A'', ''B'', ''C'']"
  let ?fs = "fs_one_file [''A=1'', ''C=5'']"
  let ?args = "\<lparr>EnvFiles = [''F''], NoExpand = False, Override = True,
                 Vars = [''A=0'', ''A=3'', ''B=x=y''], Cmd = []\<rparr>"
  let ?envVars = "[''A'' \<mapsto> ''1'', ''C'' \<mapsto> ''5'']"
  have l: "loadEnvFiles ?ord ?fs (EnvFiles ?args) (Override ?args) = Inr ?envVars"
    by (simp add: loadEnvFiles_A1_C5)
  have r: "range_order (parseCommandLineVars (Vars ?args)) (?ord (parseCommandLineVars (Vars ?args)))"
    by (simp add: parseCommandLineVars_example range_order_ord_listed)
  from command_line_vars_take_precedence [where ord = ?ord and fs = ?fs and args = ?args and envVars = ?envVars, OF l r]
  obtain merged where m: "mergedEnvVars ?ord ?fs ?args = Inr merged"
    and given: "\<And>earlier k v later.
        Vars ?args = earlier @ [k @ ''='' @ v] @ later \<Longrightarrow> CHR ''='' \<notin> set k \<Longrightarrow>
        (\<forall>u \<in> set later. u \<noteq> k \<and> \<not> prefix (k @ ''='') u) \<Longrightarrow> merged k = Some v"
    and other: "\<And>k. (\<forall>u \<in> set (Vars ?args). u \<noteq> k \<and> \<not> prefix (k @ ''='') u)
        \<Longrightarrow> merged k = ?envVars k"
    by blast
  have a: "merged ''A'' = Some ''3''"
    by (rule given [of "[''A=0'']" "''A''" "''3''" "[''B=x=y'']"]) simp_all
  have b: "merged ''B'' = Some ''x=y''"
    by (rule given [of "[''A=0'', ''A=3'']" "''B''" "''x=y''" "[]"]) simp_all
  have "merged ''C'' = ?envVars ''C''"
    by (rule other) simp
  then have c: "merged ''C'' = Some ''5''" by simp
  from m a b c show ?thesis by blast
qed


subsection \<open>Lines of a file in the multi-file program\<close>

text \<open>
  \<^verbatim>\<open>parseLine\<close> gives the quote character only together with the start of a multiline
  value: for a value that ends on its line the fourth result is \<open>0\<close>, also when the
  value was quoted.
\<close>

lemma parseLine_single_line_quoteType:
  "\<not> fst (snd (snd (parseLine line))) \<Longrightarrow> snd (snd (snd (parseLine line))) = CHR 0x00"
  by (auto simp: parseLine_def Let_def split: option.splits)

text \<open>
  So a line that is no comment and does not continue a multiline value is stored with the
  value \<^verbatim>\<open>parseLine\<close> returned, never expanded; and a line that does not match the
  pattern is stored under the empty key. A value in double or single quotes that ends on
  its line loses the two quotes and is otherwise kept as it is.
\<close>

lemma parseEnvFile_step_single_line:
  assumes "\<not> isCommentOrEmpty (TrimSpace text)" and "\<not> st_multiline st"
      and "parseLine (TrimSpace text) = (key, val, False, q)"
  shows "st_envVars (parseEnvFile_step st text) = (st_envVars st)(key \<mapsto> val)"
proof -
  from parseLine_single_line_quoteType [of "TrimSpace text"] assms(3)
  have "q = CHR 0x00" by simp
  with assms show ?thesis
    by (simp add: parseEnvFile_step_def)
qed

lemma parseEnvFile_step_malformed:
  assumes "\<not> isCommentOrEmpty (TrimSpace text)" and "\<not> st_multiline st"
      and "keyValueLine (TrimSpace text) = None"
  shows "st_envVars (parseEnvFile_step st text) = (st_envVars st)([] \<mapsto> [])"
  using assms by (intro parseEnvFile_step_single_line) (simp_all add: parseLine_def)

lemma parseLine_quoted:
  assumes "keyValueLine line = Some (key, raw)"
      and "removeInlineComment raw = q # body @ [q]"
      and "q = dquote \<or> q = squote"
  shows "parseLine line = (key, body, False, CHR 0x00)"
proof -
  have p: "HasPrefix (q # body @ [q]) [dquote] \<or> HasPrefix (q # body @ [q]) [squote]"
    using assms(3) by (auto simp: HasPrefix_def)
  have t: "TrimPrefix (q # body @ [q]) [q] = body @ [q]"
    by (simp add: TrimPrefix_def HasPrefix_def)
  have s: "HasSuffix (body @ [q]) [q]" "TrimSuffix (body @ [q]) [q] = body"
    by (simp_all add: TrimSuffix_def HasSuffix_def)
  show ?thesis
    unfolding parseLine_def assms(1) using assms(2) p t s
    by (simp add: Let_def)
qed

text \<open>
  Claim C3, which the code does not meet. A line that is not empty, is no comment and does
  not match the pattern should leave the map as it was. \<^verbatim>\<open>parseLine\<close> answers such a
  line with the empty key and the empty value, and the loop of \<^verbatim>\<open>parseEnvFile\<close>
  stores that pair without looking whether the line matched: the file with the single
  line \<^verbatim>\<open>invalid line\<close> parses to the map that holds the empty key, and \<^verbatim>\<open>main\<close>
  prints an export statement for it.
\<close>

theorem malformed_line_stored_under_empty_key:
  "keyValueLine ''invalid line'' = None
   \<and> parseEnvFile (fs_one_file [''invalid line'']) ''.env'' = Inr [[] \<mapsto> []]
   \<and> main (ord_listed [[]]) (fs_one_file [''invalid line'']) [] (\<lambda>cmdArgs env. None)
        \<lparr>EnvFiles = [], NoExpand = False, Override = False, Vars = [], Cmd = []\<rparr>
      = [Stdout (''export ='' @ [dquote, dquote, newline])]"
proof -
  have k: "keyValueLine ''invalid line'' = None" by code_simp
  have t: "TrimSpace ''invalid line'' = ''invalid line''" by code_simp
  have p: "parseLine ''invalid line'' = ([], [], False, CHR 0x00)" by code_simp
  have "parseEnvFile_step parseEnvFile_init ''invalid line''
        = parseEnvFile_init\<lparr>st_key := [], st_multiline := False, st_quoteType := CHR 0x00,
            st_envVars := (st_envVars parseEnvFile_init)([] \<mapsto> [])\<rparr>"
    by (rule parseEnvFile_step_plain [OF t _ _ p]) (simp_all add: parseEnvFile_init_def)
  then have f: "parseEnvFile (fs_one_file [''invalid line'']) ''.env'' = Inr [[] \<mapsto> []]"
    by (simp add: parseEnvFile_def fs_one_file_def parseEnvFile_init_def)
  have m: "main (ord_listed [[]]) (fs_one_file [''invalid line'']) [] (\<lambda>cmdArgs env. None)
        \<lparr>EnvFiles = [], NoExpand = False, Override = False, Vars = [], Cmd = []\<rparr>
      = [Stdout (''export ='' @ [dquote, dquote, newline])]"
    by code_simp
  from k f m show ?thesis by simp
qed

text \<open>
  Claim C4, which the code does not meet. In the multi-file program the line
  \<^verbatim>\<open>KEY="a\"b"\<close> parses to the value \<^verbatim>\<open>a\"b\<close>, the backslash kept:
  \<^verbatim>\<open>parseLine\<close> strips the surrounding quotes and replaces nothing. The
  \<^verbatim>\<open>cleanValue\<close> of the simple program gives \<^verbatim>\<open>a"b\<close> for the same value.
\<close>

theorem escaped_quote_not_unescaped:
  "parseLine (''KEY='' @ [dquote, CHR ''a'', backslash, dquote, CHR ''b'', dquote])
     = (''KEY'', [CHR ''a'', backslash, dquote, CHR ''b''], False, CHR 0x00)
   \<and> cleanValue [dquote, CHR ''a'', backslash, dquote, CHR ''b'', dquote]
     = Inr [CHR ''a'', dquote, CHR ''b'']"
  by code_simp

text \<open>
  Claim C5, which the code does not meet. The loop of \<^verbatim>\<open>parseEnvFile\<close> expands and
  replaces \<^verbatim>\<open>\n\<close> when the quote character \<^verbatim>\<open>parseLine\<close> returned is the double
  quote, and for a value that ends on its line \<^verbatim>\<open>parseLine\<close> returns \<open>0\<close>. After
  \<^verbatim>\<open>A=1\<close> the line \<^verbatim>\<open>B="${A}\n"\<close> is stored as it stands, with the reference
  unexpanded and the backslash and the \<^verbatim>\<open>n\<close> kept. The expansion and the
  replacement the claim describes, applied to that value, give \<open>1\<close> and a line feed.
\<close>

theorem double_quoted_value_not_expanded:
  "parseEnvFile
     (fs_one_file [''A=1'', ''B='' @ [dquote] @ ''${A}'' @ [backslash, CHR ''n'', dquote]]) ''.env''
   = Inr [''A'' \<mapsto> ''1'', ''B'' \<mapsto> ''${A}'' @ [backslash, CHR ''n'']]
   \<and> ReplaceAll (expandVariables (''${A}'' @ [backslash, CHR ''n'']) [''A'' \<mapsto> ''1''])
       [backslash, CHR ''n''] [newline]
     = ''1'' @ [newline]"
proof -
  have x: "ReplaceAll (expandVariables (''${A}'' @ [backslash, CHR ''n'']) [''A'' \<mapsto> ''1''])
             [backslash, CHR ''n''] [newline]
           = ''1'' @ [newline]"
    by code_simp
  let ?l2 = "''B='' @ [dquote] @ ''${A}'' @ [backslash, CHR ''n'', dquote]"
  have t1: "TrimSpace ''A=1'' = ''A=1''" by code_simp
  have p1: "parseLine ''A=1'' = (''A'', ''1'', False, CHR 0x00)" by code_simp
  have t2: "TrimSpace ?l2 = ?l2" by code_simp
  have p2: "parseLine ?l2 = (''B'', ''${A}'' @ [backslash, CHR ''n''], False, CHR 0x00)"
    by code_simp
  define st1 where "st1 = parseEnvFile_step parseEnvFile_init ''A=1''"
  have s1: "st1 = parseEnvFile_init\<lparr>st_key := ''A'', st_multiline := False,
              st_quoteType := CHR 0x00, st_envVars := (st_envVars parseEnvFile_init)(''A'' \<mapsto> ''1'')\<rparr>"
    unfolding st1_def
    by (rule parseEnvFile_step_plain [OF t1 _ _ p1]) (simp_all add: parseEnvFile_init_def)
  have s2: "parseEnvFile_step st1 ?l2 = st1\<lparr>st_key := ''B'', st_multiline := False,
              st_quoteType := CHR 0x00,
              st_envVars := (st_envVars st1)(''B'' \<mapsto> ''${A}'' @ [backslash, CHR ''n''])\<rparr>"
    using t2 p2 by (intro parseEnvFile_step_plain) (simp_all add: s1 parseEnvFile_init_def)
  have "st_envVars (foldl parseEnvFile_step parseEnvFile_init [''A=1'', ?l2])
        = [''A'' \<mapsto> ''1'', ''B'' \<mapsto> ''${A}'' @ [backslash, CHR ''n'']]"
    using s2 by (simp add: st1_def [symmetric]) (simp add: s1 parseEnvFile_init_def)
  then have "parseEnvFile (fs_one_file [''A=1'', ?l2]) ''.env''
             = Inr [''A'' \<mapsto> ''1'', ''B'' \<mapsto> ''${A}'' @ [backslash, CHR ''n'']]"
    by (simp add: parseEnvFile_def fs_one_file_def)
  with x show ?thesis by simp
qed

subsection \<open>An unreadable file\<close>

lemma loadEnvFiles_loop_fails:
  assumes "f \<in> set files" "parseEnvFile fs f = Inl e"
  shows "\<exists>e'. loadEnvFiles_loop ord fs override files envVars = Inl e'"
  using assms
proof (induction files arbitrary: envVars)
  case Nil
  then show ?case by simp
next
  case (Cons g files)
  then show ?case by (cases "parseEnvFile fs g") auto
qed

lemma parseEnvFile_unreadable:
  assumes "(\<exists>e. fs f = OpenFails e) \<or> (\<exists>lines e. fs f = Scanned lines (Some e))"
  shows "\<exists>e. parseEnvFile fs f = Inl (Error e)"
  using assms by (auto simp: parseEnvFile_def)

lemma loadEnvFiles_loop_Error:
  "loadEnvFiles_loop ord fs override files envVars = Inl e' \<Longrightarrow> \<exists>e. e' = Error e"
proof (induction files arbitrary: envVars)
  case Nil
  then show ?case by simp
next
  case (Cons g files)
  then show ?case
    by (cases "fs g") (auto simp: parseEnvFile_def split: option.splits sum.splits)
qed


text \<open>
  Claim C7. When a file of the list cannot be opened, or the scanner stops on it with an
  error, all that \<^verbatim>\<open>main\<close> does is to log the error: no export statement is printed
  and no command is run, whatever the files before it hold. (The log record is the report
  of the error; the handler that \<^verbatim>\<open>main\<close> installs writes it as a line of JSON.)
\<close>

theorem unreadable_file_no_output:
  assumes "f \<in> set (if EnvFiles args = [] then [''.env''] else EnvFiles args)"
      and "(\<exists>e. fs f = OpenFails e) \<or> (\<exists>lines e. fs f = Scanned lines (Some e))"
  shows "\<exists>e. main ord fs environ run args = [Logged ''Error loading env files'' (Error e)]"
proof -
  from assms(2) obtain e0 where e0: "parseEnvFile fs f = Inl (Error e0)"
    using parseEnvFile_unreadable [of fs f] by blast
  have "f \<in> set (if length (EnvFiles args) = 0 then [''.env''] else EnvFiles args)"
    using assms(1) by simp
  from loadEnvFiles_loop_fails [where fs = fs and f = f, OF this e0]
  obtain e' where e': "loadEnvFiles ord fs (EnvFiles args) (Override args) = Inl e'"
    unfolding loadEnvFiles_def by blast
  then obtain e where "e' = Error e"
    unfolding loadEnvFiles_def using loadEnvFiles_loop_Error by blast
  with e' show ?thesis
    by (simp add: main_def mergedEnvVars_def)
qed


text \<open>
  \<^verbatim>\<open>F1\<close> is readable and \<^verbatim>\<open>F3\<close> does not exist: the only effect is the log
  record.
\<close>

theorem unreadable_file_no_output_witness:
  "main (ord_listed [''A'']) fs_two_files [] (\<lambda>cmdArgs env. None)
     \<lparr>EnvFiles = [''F1'', ''F3''], NoExpand = False, Override = False, Vars = [], Cmd = []\<rparr>
   = [Logged ''Error loading env files'' (Error ''no such file'')]"
proof -
  let ?args = "\<lparr>EnvFiles = [''F1'', ''F3''], NoExpand = False, Override = False, Vars = [], Cmd = []\<rparr>"
  have m: "''F3'' \<in> set (if EnvFiles ?args = [] then [''.env''] else EnvFiles ?args)" by simp
  have u: "(\<exists>e. fs_two_files ''F3'' = OpenFails e) \<or> (\<exists>lines e. fs_two_files ''F3'' = Scanned lines (Some e))"
    by (simp add: fs_two_files_def)
  from unreadable_file_no_output
         [where fs = fs_two_files and f = "''F3''" and args = ?args and ord = "ord_listed [''A'']"
            and environ = "[]" and run = "\<lambda>cmdArgs env. None", OF m u]
  obtain e where e: "main (ord_listed [''A'']) fs_two_files [] (\<lambda>cmdArgs env. None) ?args
     = [Logged ''Error loading env files'' (Error e)]" ..
  have "loadEnvFiles (ord_listed [''A'']) fs_two_files [''F1'', ''F3''] False = Inl (Error ''no such file'')"
    by (simp add: loadEnvFiles_def parse_A1 parseEnvFile_def fs_two_files_def)
  then have "main (ord_listed [''A'']) fs_two_files [] (\<lambda>cmdArgs env. None) ?args
     = [Logged ''Error loading env files'' (Error ''no such file'')]"
    by (simp add: main_def mergedEnvVars_def)
  with e show ?thesis by simp
qed

subsection \<open>Expansion after the merge\<close>

text \<open>
  Claim C9, which the code does not meet. \<^verbatim>\<open>expandEnvVars\<close> overwrites the entries of
  the map while it iterates over it, and a reference reads the entry as it is at that
  moment. For \<^verbatim>\<open>A=${B}\<close>, \<^verbatim>\<open>B=${C}\<close>, \<^verbatim>\<open>C=x\<close> the visit of \<^verbatim>\<open>A\<close> before
  \<^verbatim>\<open>B\<close> leaves \<^verbatim>\<open>A=${C}\<close>, and the visit of \<^verbatim>\<open>B\<close> before \<^verbatim>\<open>A\<close> leaves
  \<^verbatim>\<open>A=x\<close>. Both are orders in which Go may visit the map.
\<close>

theorem expandEnvVars_depends_on_order:
  "range_order [''A'' \<mapsto> ''${B}'', ''B'' \<mapsto> ''${C}'', ''C'' \<mapsto> ''x''] [''A'', ''B'', ''C'']
   \<and> range_order [''A'' \<mapsto> ''${B}'', ''B'' \<mapsto> ''${C}'', ''C'' \<mapsto> ''x''] [''B'', ''A'', ''C'']
   \<and> expandEnvVars (ord_listed [''A'', ''B'', ''C''])
        [''A'' \<mapsto> ''${B}'', ''B'' \<mapsto> ''${C}'', ''C'' \<mapsto> ''x''] ''A'' = Some ''${C}''
   \<and> expandEnvVars (ord_listed [''B'', ''A'', ''C''])
        [''A'' \<mapsto> ''${B}'', ''B'' \<mapsto> ''${C}'', ''C'' \<mapsto> ''x''] ''A'' = Some ''x''"
proof -
  let ?m = "[''A'' \<mapsto> ''${B}'', ''B'' \<mapsto> ''${C}'', ''C'' \<mapsto> ''x'']"
  have "range_order ?m [''A'', ''B'', ''C'']" "range_order ?m [''B'', ''A'', ''C'']"
    by (auto simp: range_order_def)
  moreover have "expandEnvVars (ord_listed [''A'', ''B'', ''C'']) ?m ''A'' = Some ''${C}''"
    by code_simp
  moreover have "expandEnvVars (ord_listed [''B'', ''A'', ''C'']) ?m ''A'' = Some ''x''"
    by code_simp
  ultimately show ?thesis by simp
qed

section \<open>Facts about the simple program\<close>

subsection \<open>A plain line\<close>

text \<open>
  A line \<^verbatim>\<open>KEY=VALUE\<close> whose key is an identifier and whose value is trimmed and has
  no quote, backslash, \<^verbatim>\<open>#\<close> or line feed matches the pattern with these two
  submatches, and \<^verbatim>\<open>cleanValue\<close> returns the value unchanged.
\<close>


lemma cleanValue_quoted:
  assumes "q \<in> {dquote, squote, backtick}"
  shows "cleanValue (q # body @ [q])
         = Inr (ReplaceAll (ReplaceAll (ReplaceAll (TrimSpace body)
                  [backslash, dquote] [dquote]) [backslash, squote] [squote])
                  [backslash, backtick] [backtick])"
proof -
  have l: "(q # body @ [q]) ! (length (q # body @ [q]) - 1) = q"
    by (simp add: nth_append nth_Cons split: nat.splits)
  have s: "slice (q # body @ [q]) 1 (length (q # body @ [q]) - 1) = Inr body"
    by (simp add: slice_def)
  from assms l have c: "((q # body @ [q]) ! 0 = dquote \<and> (q # body @ [q]) ! (length (q # body @ [q]) - 1) = dquote) \<or>
        ((q # body @ [q]) ! 0 = squote \<and> (q # body @ [q]) ! (length (q # body @ [q]) - 1) = squote) \<or>
        ((q # body @ [q]) ! 0 = backtick \<and> (q # body @ [q]) ! (length (q # body @ [q]) - 1) = backtick)"
    by auto
  show ?thesis
    unfolding cleanValue_def TrimSpace_quoted [OF assms] Let_def
    using c s by (simp del: nth_Cons_0 length_Cons length_append)
qed

lemma commentTail_no_hash:
  assumes "CHR ''#'' \<notin> set t" "t \<noteq> []"
  shows "\<not> commentTail t"
proof -
  have "set (dropWhile reSpace t) \<subseteq> set t"
    by (auto dest: set_dropWhileD)
  with assms(1) have "dropWhile reSpace t = [] \<or> hd (dropWhile reSpace t) \<noteq> CHR ''#''"
    by (cases "dropWhile reSpace t") auto
  with assms(2) show ?thesis
    by (auto simp: commentTail_def Let_def)
qed

lemma lazyValue_plain:
  assumes "CHR ''#'' \<notin> set v" "newline \<notin> set v"
  shows "lazyValue v = Some v"
  using assms
proof (induction v)
  case Nil
  then show ?case by simp
next
  case (Cons c v)
  then have "\<not> commentTail (c # v)" by (intro commentTail_no_hash) auto
  with Cons show ?case by auto
qed

lemma identChar_plain: "identChar c \<Longrightarrow> c \<noteq> CHR ''='' \<and> c \<noteq> CHR ''#'' \<and> \<not> reSpace c"
  by (auto simp: identChar_def identStart_def reSpace_def)

lemma envLinePattern_plain:
  assumes key: "key \<noteq> []" "\<forall>c \<in> set key. identChar c"
      and v: "v = [] \<or> leadingSpace v = 0" "CHR ''#'' \<notin> set v" "newline \<notin> set v"
  shows "envLinePattern (key @ ''='' @ v) = Some (key, v)"
proof -
  from key(2) have noeq: "\<forall>c \<in> set key. c \<noteq> CHR ''=''" and nohash: "CHR ''#'' \<notin> set key"
    using identChar_plain by blast+
  have tw: "takeWhile (\<lambda>c. c \<noteq> CHR ''='') (key @ ''='' @ v) = key"
    using noeq by (simp add: takeWhile_append2)
  have dw: "dropWhile (\<lambda>c. c \<noteq> CHR ''='') (key @ ''='' @ v) = ''='' @ v"
    using noeq by (simp add: dropWhile_append2)
  from key obtain c cs where kc: "key = c # cs" "\<not> reSpace c"
    using identChar_plain by (cases key) auto
  then have dk: "dropWhile reSpace key = key" by simp
  from v(1) have dv: "dropWhile reSpace v = v"
    by (auto simp: leadingSpace_not_reSpace)
  show ?thesis
    unfolding envLinePattern_def tw dw
    using key(1) nohash dk dv lazyValue_plain [OF v(2,3)]
    by (simp add: Let_def)
qed

lemma cleanValue_plain:
  assumes t: "TrimSpace v = v"
      and q: "dquote \<notin> set v" "squote \<notin> set v" "backtick \<notin> set v"
      and b: "backslash \<notin> set v"
  shows "cleanValue v = Inr v"
proof (cases "v = []")
  case True
  with t show ?thesis by (simp add: cleanValue_def)
next
  case False
  then have "v ! 0 \<in> set v" by simp
  with q have "v ! 0 \<noteq> dquote" "v ! 0 \<noteq> squote" "v ! 0 \<noteq> backtick" by auto
  with False t b show ?thesis
    by (simp add: cleanValue_def Let_def ReplaceAll_absent)
qed

lemma TrimSpace_key:
  assumes "key \<noteq> []" "identStart (hd key)" "\<forall>c \<in> set key. identChar c"
  shows "TrimSpace key = key"
proof -
  from assms(1,2) have "leadingSpace key = 0"
    using leadingSpace_Cons [OF identStart_not_space_lead] by (cases key) auto
  moreover from assms(1,3) have "trailingSpace key = 0"
    using trailingSpace_snoc [OF identChar_not_space_last] by (cases key rule: rev_cases) auto
  ultimately show ?thesis by (simp add: TrimSpace_id)
qed

lemma TrimSpace_line:
  assumes "key \<noteq> []" "identStart (hd key)" "TrimSpace v = v"
  shows "TrimSpace (key @ ''='' @ v) = key @ ''='' @ v"
proof -
  from assms(1,2) have "leadingSpace (key @ ''='' @ v) = 0"
    using leadingSpace_Cons [OF identStart_not_space_lead] by (cases key) auto
  moreover have "trailingSpace (key @ ''='' @ v) = 0"
    using trailingSpace_append [OF equals_not_in_spaces, of v key] TrimSpace_fixed [OF assms(3)]
    by simp
  ultimately show ?thesis by (simp add: TrimSpace_id)
qed

lemma simple_parse_plain_line:
  assumes key: "key \<noteq> []" "identStart (hd key)" "\<forall>c \<in> set key. identChar c"
      and v: "TrimSpace v = v" "CHR ''#'' \<notin> set v" "newline \<notin> set v"
      and q: "dquote \<notin> set v" "squote \<notin> set v" "backtick \<notin> set v" "backslash \<notin> set v"
  shows "simple_parseEnvFile_loop [key @ ''='' @ v] envVars = Inr (envVars(key \<mapsto> v))"
proof -
  let ?line = "key @ ''='' @ v"
  have l: "TrimSpace ?line = ?line" using key(1,2) v(1) by (rule TrimSpace_line)
  from key(1,2) have h: "?line \<noteq> [] \<and> \<not> HasPrefix ?line ''#''"
    by (cases key) (auto simp: HasPrefix_prefix identStart_def)
  have p: "envLinePattern ?line = Some (key, v)"
    using key(1,3) TrimSpace_fixed [OF v(1)] v(2,3)
    by (intro envLinePattern_plain) auto
  have c: "cleanValue (TrimSpace v) = Inr v"
    using v(1) q by (simp add: cleanValue_plain)
  show ?thesis
    using l h p c TrimSpace_key [OF key] by (simp add: Let_def)
qed

lemma range_order_singleton:
  assumes "range_order [k \<mapsto> v] ks"
  shows "ks = [k]"
proof -
  from assms have d: "distinct ks" and s: "set ks = {k}" by (simp_all add: range_order_def)
  then have "length ks = 1"
    by (metis One_nat_def card.empty card.insert distinct_card empty_iff finite.emptyI)
  with s show ?thesis
    by (cases ks) auto
qed

lemma simple_parse_A_B:
  "simple_parseEnvFile (fs_one_file [''A=1'', ''B=2'']) path = Inr [''A'' \<mapsto> ''1'', ''B'' \<mapsto> ''2'']"
proof -
  have a: "simple_parseEnvFile_loop ([''A'' @ ''='' @ ''1'']) Map.empty = Inr [''A'' \<mapsto> ''1'']"
    by (rule simple_parse_plain_line) (simp_all add: identStart_def identChar_def, code_simp)
  have b: "simple_parseEnvFile_loop ([''B'' @ ''='' @ ''2'']) [''A'' \<mapsto> ''1'']
           = Inr [''A'' \<mapsto> ''1'', ''B'' \<mapsto> ''2'']"
    by (rule simple_parse_plain_line) (simp_all add: identStart_def identChar_def, code_simp)
  have split: "simple_parseEnvFile_loop (l # ls) m
      = (case simple_parseEnvFile_loop [l] m of Inl p \<Rightarrow> Inl p
         | Inr m' \<Rightarrow> simple_parseEnvFile_loop ls m')" for l ls m
    by (simp add: Let_def split: option.splits sum.splits)
  have "simple_parseEnvFile_loop [''A=1'', ''B=2''] Map.empty = Inr [''A'' \<mapsto> ''1'', ''B'' \<mapsto> ''2'']"
    using a b by (subst split) simp
  then show ?thesis
    by (simp add: simple_parseEnvFile_def fs_one_file_def)
qed

subsection \<open>Unset mode\<close>

text \<open>
  Claim C6, as amended. In unset mode the simple program prints one line
  \<^verbatim>\<open>unset KEY\<close> for every key of the parsed map and nothing else (no values): the
  output is that line for each key of a list that holds every key exactly once. The
  order of the list is the order in which Go visits the map; nothing sorts it.
\<close>

theorem unset_mode_output:
  assumes "simple_parseEnvFile fs (if File args \<noteq> [] then File args else ''.env'') = Inr envVars"
      and "\<not> Eval args" and "Unset args"
      and "range_order envVars (ord envVars)"
  shows "\<exists>ks. distinct ks \<and> set ks = dom envVars
            \<and> simple_main ord fs args = map (\<lambda>key. Stdout (''unset '' @ key @ [newline])) ks"
  using assms
  by (intro exI [of _ "ord envVars"]) (simp add: simple_main_def range_order_def Let_def)

text \<open>
  A file that defines \<^verbatim>\<open>A\<close> and \<^verbatim>\<open>B\<close>, visited as \<^verbatim>\<open>B\<close>, \<^verbatim>\<open>A\<close>.
\<close>

theorem unset_mode_output_witness:
  "\<exists>ks. distinct ks \<and> set ks = {''A'', ''B''}
       \<and> simple_main (ord_listed [''B'', ''A'']) (fs_one_file [''A=1'', ''B=2''])
            \<lparr>File = [], Eval = False, Unset = True\<rparr>
          = map (\<lambda>key. Stdout (''unset '' @ key @ [newline])) ks"
proof -
  let ?args = "\<lparr>File = [], Eval = False, Unset = True\<rparr>"
  let ?m = "[''A'' \<mapsto> ''1'', ''B'' \<mapsto> ''2'']"
  have p: "simple_parseEnvFile (fs_one_file [''A=1'', ''B=2''])
             (if File ?args \<noteq> [] then File ?args else ''.env'') = Inr ?m"
    by (rule simple_parse_A_B)
  have e: "\<not> Eval ?args" "Unset ?args" by simp_all
  have r: "range_order ?m (ord_listed [''B'', ''A''] ?m)"
    by (rule range_order_ord_listed) auto
  from unset_mode_output [of "fs_one_file [''A=1'', ''B=2'']" ?args ?m "ord_listed [''B'', ''A'']",
        OF p e r]
  show ?thesis by (simp add: insert_commute)
qed

text \<open>
  Claim C6 as stated fails: for the file that defines \<^verbatim>\<open>A\<close> and \<^verbatim>\<open>B\<close>, the visit
  of \<^verbatim>\<open>B\<close> before \<^verbatim>\<open>A\<close> is an order of the map, and the output is then
  \<^verbatim>\<open>unset B\<close> followed by \<^verbatim>\<open>unset A\<close>, which is not sorted.
\<close>

theorem unset_mode_not_sorted_counterexample:
  "simple_parseEnvFile (fs_one_file [''A=1'', ''B=2'']) ''.env'' = Inr [''A'' \<mapsto> ''1'', ''B'' \<mapsto> ''2'']
   \<and> range_order [''A'' \<mapsto> ''1'', ''B'' \<mapsto> ''2''] [''B'', ''A'']
   \<and> ord_listed [''B'', ''A''] [''A'' \<mapsto> ''1'', ''B'' \<mapsto> ''2''] = [''B'', ''A'']
   \<and> simple_main (ord_listed [''B'', ''A'']) (fs_one_file [''A=1'', ''B=2''])
        \<lparr>File = [], Eval = False, Unset = True\<rparr>
      = [Stdout (''unset B'' @ [newline]), Stdout (''unset A'' @ [newline])]
   \<and> \<not> sorted [''unset B'' @ [newline], ''unset A'' @ [newline]]"
proof -
  have "range_order [''A'' \<mapsto> ''1'', ''B'' \<mapsto> ''2''] [''B'', ''A'']"
    by (auto simp: range_order_def)
  moreover have "ord_listed [''B'', ''A''] [''A'' \<mapsto> ''1'', ''B'' \<mapsto> ''2''] = [''B'', ''A'']"
    by (simp add: ord_listed_def)
  moreover have "simple_main (ord_listed [''B'', ''A'']) (fs_one_file [''A=1'', ''B=2''])
        \<lparr>File = [], Eval = False, Unset = True\<rparr>
      = [Stdout (''unset B'' @ [newline]), Stdout (''unset A'' @ [newline])]"
    by code_simp
  moreover have "\<not> sorted [''unset B'' @ [newline], ''unset A'' @ [newline]]"
    by simp
  ultimately show ?thesis using simple_parse_A_B by simp
qed

subsection \<open>Preview mode\<close>

text \<open>
  Claim C8, as amended. For a line \<^verbatim>\<open>KEY=VALUE\<close> whose key is an identifier and
  whose value is trimmed and has no quote (double, single or backtick), no backslash, no
  \<^verbatim>\<open>#\<close> and no line feed, the file that holds this line parses to the map with
  this one pair, and preview mode prints the heading
  \<^verbatim>\<open>Evaluated environment variables:\<close> and after it exactly the line
  \<^verbatim>\<open>KEY=VALUE\<close>.
\<close>

theorem preview_round_trip:
  assumes "key \<noteq> []" and "identStart (hd key)" and "\<forall>c \<in> set key. identChar c"
      and "TrimSpace v = v"
      and "set v \<inter> {dquote, squote, backtick, backslash, CHR ''#'', newline} = {}"
      and "fs (if File args \<noteq> [] then File args else ''.env'') = Scanned [key @ ''='' @ v] None"
      and "Eval args"
      and "range_order [key \<mapsto> v] (ord [key \<mapsto> v])"
  shows "simple_parseEnvFile fs (if File args \<noteq> [] then File args else ''.env'') = Inr [key \<mapsto> v]
       \<and> simple_main ord fs args
         = [Stdout (''Evaluated environment variables:'' @ [newline]),
            Stdout (key @ ''='' @ v @ [newline])]"
proof -
  from assms(5) have v: "CHR ''#'' \<notin> set v" "newline \<notin> set v" "dquote \<notin> set v"
    "squote \<notin> set v" "backtick \<notin> set v" "backslash \<notin> set v" by auto
  have p: "simple_parseEnvFile fs (if File args \<noteq> [] then File args else ''.env'') = Inr [key \<mapsto> v]"
    using simple_parse_plain_line [OF assms(1-4) v, of Map.empty] assms(6)
    by (simp add: simple_parseEnvFile_def)
  from assms(8) have o: "ord [key \<mapsto> v] = [key]" by (rule range_order_singleton)
  from p o assms(7) show ?thesis
    by (simp add: simple_main_def displayEnvVars_def lookup_def Let_def)
qed

text \<open>The line \<^verbatim>\<open>KEY=value\<close>.\<close>

theorem preview_round_trip_witness:
  "simple_parseEnvFile (fs_one_file [''KEY=value'']) ''.env'' = Inr [''KEY'' \<mapsto> ''value'']
   \<and> simple_main (ord_listed [''KEY'']) (fs_one_file [''KEY=value''])
        \<lparr>File = [], Eval = True, Unset = False\<rparr>
      = [Stdout (''Evaluated environment variables:'' @ [newline]),
         Stdout (''KEY=value'' @ [newline])]"
proof -
  let ?args = "\<lparr>File = [], Eval = True, Unset = False\<rparr>"
  have k: "''KEY'' \<noteq> []" "identStart (hd ''KEY'')" "\<forall>c \<in> set ''KEY''. identChar c"
    by (simp_all add: identStart_def identChar_def)
  have t: "TrimSpace ''value'' = ''value''" by code_simp
  have n: "set ''value'' \<inter> {dquote, squote, backtick, backslash, CHR ''#'', newline} = {}"
    by simp
  have f: "fs_one_file [''KEY=value''] (if File ?args \<noteq> [] then File ?args else ''.env'')
           = Scanned [''KEY'' @ ''='' @ ''value''] None"
    by (simp add: fs_one_file_def)
  have e: "Eval ?args" by simp
  have r: "range_order [''KEY'' \<mapsto> ''value''] (ord_listed [''KEY''] [''KEY'' \<mapsto> ''value''])"
    by (simp add: range_order_ord_listed)
  from preview_round_trip [of "''KEY''" "''value''" "fs_one_file [''KEY=value'']" ?args
      "ord_listed [''KEY'']", OF k t n f e r]
  show ?thesis by simp
qed

text \<open>
  Claim C8 as stated fails: the preview of the file with the line \<^verbatim>\<open>KEY=value\<close> is
  not that line alone, the heading comes first.
\<close>

theorem preview_prints_heading_counterexample:
  "simple_main (ord_listed [''KEY'']) (fs_one_file [''KEY=value''])
      \<lparr>File = [], Eval = True, Unset = False\<rparr>
     \<noteq> [Stdout (''KEY=value'' @ [newline])]
   \<and> simple_main (ord_listed [''KEY'']) (fs_one_file [''KEY=value''])
      \<lparr>File = [], Eval = True, Unset = False\<rparr>
     = [Stdout (''Evaluated environment variables:'' @ [newline]),
        Stdout (''KEY=value'' @ [newline])]"
  by code_simp

subsection \<open>A value that is one quote character\<close>

text \<open>
  Claim C10, which the code does not meet. For a value that is a single quote character
  (double, single or backtick) the first and the last byte are the same quote, and the
  slice \<^verbatim>\<open>value[1 : len(value)-1]\<close> is \<^verbatim>\<open>value[1:0]\<close>: \<^verbatim>\<open>cleanValue\<close> panics,
  and a file with the line \<^verbatim>\<open>KEY="\<close> crashes the program.
\<close>

theorem cleanValue_lone_quote_panics:
  "cleanValue [dquote] = Inl (Panic ''slice bounds out of range'')
   \<and> cleanValue [squote] = Inl (Panic ''slice bounds out of range'')
   \<and> cleanValue [backtick] = Inl (Panic ''slice bounds out of range'')
   \<and> simple_main (ord_listed [''KEY'']) (fs_one_file [''KEY='' @ [dquote]])
        \<lparr>File = [], Eval = False, Unset = False\<rparr>
      = [Crashed ''slice bounds out of range'']"
  by code_simp

end
